theory Spec2Isabelle
  imports
    Main
    "HOL-Library.Char_ord"
    "HOL-Library.List_Lexorder"
    "HOL-Library.AList"
    "HOL-Library.Multiset"
begin

section \<open>metalsmith-link-checker: the plugin of lib/index.js\<close>

text \<open>
  The development follows the current version of \<^verbatim>\<open>lib/index.js\<close> (the one with the
  \<^verbatim>\<open>ignore\<close> option, \<^verbatim>\<open>urlParse\<close> and the asynchronous \<^verbatim>\<open>validUrl\<close>).

  JavaScript strings are modelled as \<^typ>\<open>string\<close>: a \<^typ>\<open>char\<close> stands for one code unit
  (restricted to code units below 256), so that the default comparison of
  \<^verbatim>\<open>Array.prototype.sort\<close>, which orders strings by code units, is the lexicographic
  order of \<^typ>\<open>string\<close>.
\<close>

subsection \<open>Plain objects\<close>

text \<open>
  A plain object \<^verbatim>\<open>{}\<close> is the list of its own enumerable properties, with distinct
  keys.  An object that the plugin receives lists them in the order of \<^verbatim>\<open>Object.keys\<close>; an
  object that the plugin builds lists them in the order of insertion (\<^verbatim>\<open>Object.keys\<close>
  would move keys that are array indices to the front; no statement below depends on the
  order of the keys of a built object).  Reading a property that the object does not own
  falls through to \<^verbatim>\<open>Object.prototype\<close>, whose property names are listed in
  \<open>prototypeNames\<close>.
\<close>

type_synonym 'a object = "(string \<times> 'a) list"

text \<open>
  How a computation ends without its result: with an exception (\<open>TypeError\<close>,
  \<open>RangeError\<close>), or, for an asynchronous call, by never calling back (\<open>Stalled\<close>).
\<close>

datatype error = TypeError | RangeError | Stalled

datatype 'a property = Own 'a | Inherited | Undefined

definition prototypeNames :: "string list" where
  "prototypeNames =
     [''constructor'', ''__defineGetter__'', ''__defineSetter__'', ''hasOwnProperty'',
      ''__lookupGetter__'', ''__lookupSetter__'', ''isPrototypeOf'', ''propertyIsEnumerable'',
      ''toString'', ''valueOf'', ''__proto__'', ''toLocaleString'']"

text \<open>\<^verbatim>\<open>obj[key]\<close>\<close>

definition getProp :: "'a object \<Rightarrow> string \<Rightarrow> 'a property" where
  "getProp obj key =
     (case map_of obj key of
        Some v \<Rightarrow> Own v
      | None \<Rightarrow> if key \<in> set prototypeNames then Inherited else Undefined)"

text \<open>\<^verbatim>\<open>key in obj\<close>\<close>

definition hasProp :: "'a object \<Rightarrow> string \<Rightarrow> bool" where
  "hasProp obj key = (case getProp obj key of Undefined \<Rightarrow> False | _ \<Rightarrow> True)"

text \<open>\<^verbatim>\<open>Array.prototype.join\<close> on an array of strings\<close>

fun joinWith :: "string \<Rightarrow> string list \<Rightarrow> string" where
  "joinWith sep [] = []"
| "joinWith sep [x] = x"
| "joinWith sep (x # y # ys) = x @ sep @ joinWith sep (y # ys)"

text \<open>\<^verbatim>\<open>filename.replace(/[/\\]/g, '/')\<close>\<close>

definition normalizeSep :: "string \<Rightarrow> string" where
  "normalizeSep filename = map (\<lambda>c. if c = CHR 0x5C then CHR ''/'' else c) filename"

subsection \<open>flipObjectOfArrays\<close>

text \<open>
  The body of the inner \<^verbatim>\<open>forEach\<close>:
  \<^verbatim>\<open>if (output[val] === undefined) { output[val] = []; } output[val].push(key);\<close>
  When \<^verbatim>\<open>val\<close> names a property of \<^verbatim>\<open>Object.prototype\<close>, \<^verbatim>\<open>output[val]\<close> is that
  inherited value, which has no \<^verbatim>\<open>push\<close>: the call raises a TypeError.
\<close>

definition pushKey :: "string list object \<Rightarrow> string \<Rightarrow> string \<Rightarrow> error + string list object" where
  "pushKey output val key =
     (case getProp output val of
        Undefined \<Rightarrow> Inr (AList.update val [key] output)
      | Own keys \<Rightarrow> Inr (AList.update val (keys @ [key]) output)
      | Inherited \<Rightarrow> Inl TypeError)"

text \<open>\<^verbatim>\<open>input[key].forEach((val) => ...)\<close>\<close>

fun flipVals :: "string \<Rightarrow> string list \<Rightarrow> string list object \<Rightarrow> error + string list object" where
  "flipVals key [] output = Inr output"
| "flipVals key (val # vals) output =
     (case pushKey output val key of
        Inl e \<Rightarrow> Inl e
      | Inr output' \<Rightarrow> flipVals key vals output')"

text \<open>\<^verbatim>\<open>Object.keys(input).forEach((key) => ...)\<close>\<close>

fun flipKeys :: "string list object \<Rightarrow> string list object \<Rightarrow> error + string list object" where
  "flipKeys [] output = Inr output"
| "flipKeys ((key, vals) # rest) output =
     (case flipVals key vals output of
        Inl e \<Rightarrow> Inl e
      | Inr output' \<Rightarrow> flipKeys rest output')"

definition flipObjectOfArrays :: "string list object \<Rightarrow> error + string list object" where
  "flipObjectOfArrays input = flipKeys input []"

text \<open>
  The citations of an object of arrays: every pair of a key and one element of its array,
  in the order in which the two nested \<^verbatim>\<open>forEach\<close> loops visit them.
\<close>

definition citations :: "string list object \<Rightarrow> (string \<times> string) list" where
  "citations input = concat (map (\<lambda>(key, vals). map (Pair key) vals) input)"

text \<open>The keys that cite \<open>val\<close>, one entry for each citation.\<close>

definition citing :: "(string \<times> string) list \<Rightarrow> string \<Rightarrow> string list" where
  "citing cs val = map fst (filter (\<lambda>c. snd c = val) cs)"

subsection \<open>Node's path module (POSIX variant)\<close>

text \<open>
  The source calls \<^verbatim>\<open>path.dirname\<close> and \<^verbatim>\<open>path.join\<close> of Node.js.  They are modelled
  after \<^verbatim>\<open>path.posix\<close> (on Windows \<^verbatim>\<open>path.join\<close> produces backslashes instead).
\<close>

text \<open>\<^verbatim>\<open>String.prototype.split\<close> at one separator character\<close>

fun splitOn :: "char \<Rightarrow> string \<Rightarrow> string list" where
  "splitOn sep [] = [[]]"
| "splitOn sep (c # cs) =
     (if c = sep then [] # splitOn sep cs
      else (case splitOn sep cs of [] \<Rightarrow> [[c]] | s # ss \<Rightarrow> (c # s) # ss))"

text \<open>
  \<^verbatim>\<open>normalizeString\<close>, segment by segment: empty segments and \<^verbatim>\<open>.\<close> are dropped,
  \<^verbatim>\<open>..\<close> removes the segment before it, and is kept only in a relative path
  (\<open>allowAboveRoot\<close>) that has no segment left to remove.
\<close>

fun normalizeString :: "bool \<Rightarrow> string list \<Rightarrow> string list \<Rightarrow> string list" where
  "normalizeString allowAboveRoot res [] = res"
| "normalizeString allowAboveRoot res (seg # segs) =
     (if seg = [] \<or> seg = ''.'' then normalizeString allowAboveRoot res segs
      else if seg = ''..'' then
        (if res = [] \<or> last res = ''..'' then
           (if allowAboveRoot then normalizeString allowAboveRoot (res @ [''..'']) segs
            else normalizeString allowAboveRoot res segs)
         else normalizeString allowAboveRoot (butlast res) segs)
      else normalizeString allowAboveRoot (res @ [seg]) segs)"

definition normalize :: "string \<Rightarrow> string" where
  "normalize path =
     (if path = [] then ''.''
      else
        let isAbsolute = (hd path = CHR ''/'');
            trailingSeparator = (last path = CHR ''/'');
            res = joinWith ''/'' (normalizeString (\<not> isAbsolute) [] (splitOn CHR ''/'' path))
        in if res = [] then (if isAbsolute then ''/'' else if trailingSeparator then ''./'' else ''.'')
           else (if isAbsolute then ''/'' else []) @ res @ (if trailingSeparator then ''/'' else []))"

text \<open>\<^verbatim>\<open>path.join(...args)\<close>\<close>

definition join :: "string list \<Rightarrow> string" where
  "join args =
     (case filter (\<lambda>arg. arg \<noteq> []) args of
        [] \<Rightarrow> ''.''
      | parts \<Rightarrow> normalize (joinWith ''/'' parts))"

text \<open>
  The loop of \<^verbatim>\<open>path.dirname\<close>: \<open>i\<close> runs from the last index down to 1 and stops at the
  first slash that follows (from the right) a character other than a slash.
\<close>

fun dirnameEnd :: "string \<Rightarrow> nat \<Rightarrow> bool \<Rightarrow> nat option" where
  "dirnameEnd path 0 matchedSlash = None"
| "dirnameEnd path (Suc i) matchedSlash =
     (if path ! Suc i = CHR ''/'' then
        (if matchedSlash then dirnameEnd path i matchedSlash else Some (Suc i))
      else dirnameEnd path i False)"

definition dirname :: "string \<Rightarrow> string" where
  "dirname path =
     (if path = [] then ''.''
      else
        let hasRoot = (hd path = CHR ''/'') in
        case dirnameEnd path (length path - 1) True of
          None \<Rightarrow> (if hasRoot then ''/'' else ''.'')
        | Some e \<Rightarrow> (if hasRoot \<and> e = 1 then ''//'' else take e path))"

subsection \<open>validLocal\<close>

text \<open>
  \<^verbatim>\<open>dest.replace(/#[^/\\]*$/, '')\<close>: the leftmost \<^verbatim>\<open>#\<close> after which neither a slash nor
  a backslash occurs is removed together with the rest of the string.  \<open>noSlash cs\<close> says
  that \<open>cs\<close> matches \<^verbatim>\<open>[^/\\]*\<close> up to the end of the string.
\<close>

definition noSlash :: "string \<Rightarrow> bool" where
  "noSlash cs = list_all (\<lambda>d. d \<noteq> CHR ''/'' \<and> d \<noteq> CHR 0x5C) cs"

fun stripAnchor :: "string \<Rightarrow> string" where
  "stripAnchor [] = []"
| "stripAnchor (c # cs) =
     (if c = CHR ''#'' \<and> noSlash cs then []
      else c # stripAnchor cs)"

text \<open>
  \<open>files\<close> is the object \<^verbatim>\<open>normalizedFilenames\<close> of the plugin; the last line of the
  source tests membership with the \<^verbatim>\<open>in\<close> operator.
\<close>

definition validLocal :: "bool object \<Rightarrow> string \<Rightarrow> string \<Rightarrow> bool" where
  "validLocal files src dest0 =
     (let dest = stripAnchor dest0 in
      if dest = [] \<or> dest = ''.'' \<or> dest = ''./'' then True
      else
        let linkPath = join [dirname src, dest] in
        if linkPath = [] \<or> linkPath = ''.'' \<or> linkPath = ''./'' then True
        else hasProp files linkPath \<or> hasProp files (join [linkPath, ''index.html'']))"

text \<open>
  \<^verbatim>\<open>normalizedFilenames\<close>: the \<^verbatim>\<open>reduce\<close> over \<^verbatim>\<open>Object.keys(files)\<close> that stores
  \<^verbatim>\<open>true\<close> under every file name with its separators normalized.  (The assignment to
  the key \<^verbatim>\<open>__proto__\<close> stores nothing in JavaScript; \<open>hasProp\<close>, the only reader of this
  object, holds for that key either way.)
\<close>

definition normalizedFilenames :: "string list \<Rightarrow> bool object" where
  "normalizedFilenames fileKeys =
     foldl (\<lambda>reducer filename. AList.update (normalizeSep filename) True reducer) [] fileKeys"

subsection \<open>The environment of a run\<close>

text \<open>
  What the plugin obtains from Node.js, from the network and from its options is a
  parameter of the model:
  \<^item> \<open>scheme\<close>: the scheme that \<^verbatim>\<open>new URL(input)\<close> finds (in lower case), \<open>None\<close> when the
    constructor throws (a reference without a scheme, or an invalid URL);
  \<^item> \<open>network\<close>: what happens to a request that the library has sent;
  \<^item> \<open>ignored\<close>: whether some regular expression of \<^verbatim>\<open>options.ignore\<close> matches;
  \<^item> \<open>parallelism\<close>: \<^verbatim>\<open>options.parallelism\<close>.
\<close>

datatype library = Http | Https

datatype http_method = HEAD | GET

text \<open>
  A request that was sent is answered with a response of some status code (\<open>Answers\<close>),
  or fails with an \<^verbatim>\<open>'error'\<close> event that carries \<^verbatim>\<open>err.message\<close> (\<open>Errors\<close>), or gets
  neither (\<open>Hangs\<close>): the server accepts the connection and stays silent.  The option
  \<^verbatim>\<open>timeout\<close> makes the request emit \<^verbatim>\<open>'timeout'\<close> then, which destroys nothing by itself,
  and the source registers no listener for it.
\<close>

datatype network_event = Answers nat | Errors string | Hangs

record env =
  scheme :: "string \<Rightarrow> string option"
  network :: "library \<Rightarrow> http_method \<Rightarrow> string \<Rightarrow> network_event"
  ignored :: "string \<Rightarrow> bool"
  parallelism :: nat

text \<open>The invocations of the two validators: a request of \<open>validUrl\<close>, a call of \<open>validLocal\<close>.\<close>

datatype call = Request library http_method string | Local string string

text \<open>The second argument of \<^verbatim>\<open>asyncCallback\<close>: \<^verbatim>\<open>null\<close> or the validation error.\<close>

type_synonym outcome = "string option"

text \<open>A non-negative integer in a template literal\<close>

fun showNat :: "nat \<Rightarrow> string" where
  "showNat n =
     (if n < 10 then [''0123456789'' ! n]
      else showNat (n div 10) @ [''0123456789'' ! (n mod 10)])"

declare showNat.simps [simp del]

text \<open>\<^verbatim>\<open>urlParse(input).protocol\<close>: the scheme followed by a colon, or \<^verbatim>\<open>undefined\<close>\<close>

definition urlParse :: "env \<Rightarrow> string \<Rightarrow> string option" where
  "urlParse E input = map_option (\<lambda>s. s @ '':'') (scheme E input)"

text \<open>
  What \<^verbatim>\<open>library.request(link, {method, ...}, callback)\<close> does.  The library parses the
  link with \<^verbatim>\<open>new URL\<close> and throws a TypeError at once (\<^verbatim>\<open>ERR_INVALID_PROTOCOL\<close>, or
  \<^verbatim>\<open>ERR_INVALID_URL\<close>) unless the protocol it finds is its own: \<open>Throws\<close>.  Otherwise the
  request is sent, and the response callback is called with the response (\<open>Response\<close>), or
  the listener for \<^verbatim>\<open>'error'\<close> is called (\<open>Failure\<close>), or no callback is ever called
  (\<open>Silent\<close>).
\<close>

datatype reply = Response nat | Failure string | Throws | Silent

definition libraryProtocol :: "library \<Rightarrow> string" where
  "libraryProtocol library = (case library of Http \<Rightarrow> ''http:'' | Https \<Rightarrow> ''https:'')"

definition request :: "env \<Rightarrow> library \<Rightarrow> http_method \<Rightarrow> string \<Rightarrow> reply" where
  "request E library m link =
     (if urlParse E link = Some (libraryProtocol library) then
        (case network E library m link of
           Answers statusCode \<Rightarrow> Response statusCode
         | Errors msg \<Rightarrow> Failure msg
         | Hangs \<Rightarrow> Silent)
      else Throws)"

subsection \<open>validUrl\<close>

text \<open>
  The library is chosen by the first five characters of the link as it is written.  An
  exception of \<^verbatim>\<open>library.request\<close> leaves \<open>validUrl\<close> (\<open>Inl TypeError\<close>); a request that
  gets neither a response nor an error never calls \<^verbatim>\<open>asyncCallback\<close> (\<open>Inl Stalled\<close>).

  The response callback is called with the response object, and it reads
  \<^verbatim>\<open>res.statusCode\<close> before it tests \<^verbatim>\<open>!res\<close>: the branch that would report
  \<^verbatim>\<open>'no response'\<close> is never taken.
\<close>

function validUrl :: "env \<Rightarrow> string \<Rightarrow> http_method \<Rightarrow> call list \<times> (error + outcome)" where
  "validUrl E link method =
     (let library = (if take 5 link = ''https'' then Https else Http) in
      case request E library method link of
        Throws \<Rightarrow> ([Request library method link], Inl TypeError)
      | Silent \<Rightarrow> ([Request library method link], Inl Stalled)
      | Failure message \<Rightarrow> ([Request library method link], Inr (Some message))
      | Response statusCode \<Rightarrow>
          if statusCode = 405 \<and> method \<noteq> GET then
            (case validUrl E link GET of
               (calls, r) \<Rightarrow> (Request library method link # calls, r))
          else if 400 \<le> statusCode \<and> statusCode \<le> 599 then
            ([Request library method link], Inr (Some (''HTTP '' @ showNat statusCode)))
          else ([Request library method link], Inr None))"
  by pat_completeness auto
termination
  by (relation "measure (\<lambda>(E, link, method). if method = GET then 0 else 1)") auto

declare validUrl.simps [simp del]

subsection \<open>The plugin\<close>

text \<open>
  The own keys of \<^verbatim>\<open>protocolValidators\<close>.  A protocol ends with a colon, so it never names
  a property inherited from \<^verbatim>\<open>Object.prototype\<close>.
\<close>

definition protocolValidators :: "string list" where
  "protocolValidators = [''http:'', ''https:'']"

text \<open>
  The iteratee of \<^verbatim>\<open>async.mapValuesLimit\<close>: \<open>filenames\<close> is the value and \<open>link\<close> the key
  of one entry of \<^verbatim>\<open>linksToFilenames\<close>.  \<open>validUrl\<close> returns \<^verbatim>\<open>undefined\<close> and calls the
  callback itself.
\<close>

definition iteratee :: "env \<Rightarrow> bool object \<Rightarrow> string list \<Rightarrow> string \<Rightarrow> call list \<times> (error + outcome)" where
  "iteratee E files filenames link =
     (case urlParse E link of
        Some protocol \<Rightarrow>
          if protocol \<in> set protocolValidators then validUrl E link HEAD
          else ([], Inr None)
      | None \<Rightarrow>
          let badFilenames = filter (\<lambda>filename. \<not> validLocal files filename link) filenames
          in (map (\<lambda>filename. Local filename link) filenames,
              Inr (if length badFilenames = 0 then None else Some ''not found'')))"

text \<open>The keys that match an ignore pattern are deleted from \<^verbatim>\<open>linksToFilenames\<close>.\<close>

definition processIgnored :: "env \<Rightarrow> string list object \<Rightarrow> string list object" where
  "processIgnored E linksToFilenames = filter (\<lambda>(link, filenames). \<not> ignored E link) linksToFilenames"

text \<open>
  The loop of \<^verbatim>\<open>eachOfLimit\<close> in the library async, which \<^verbatim>\<open>mapValuesLimit\<close> runs: it
  starts the iteratee for the keys in their order, as long as fewer than \<^verbatim>\<open>limit\<close>
  iteratees are running.  Each entry of the list below is one run of the iteratee, with the
  validator invocations it made.  \<open>free\<close> counts the slots that are not held for good:
  \<^item> an iteratee that calls back gives its slot back (at once for a local link, when the
    reply arrives for a remote one), so the next key is started sooner or later;
  \<^item> an iteratee that never calls back keeps its slot, and with no slot left no further
    key is started;
  \<^item> an exception of the iteratee leaves the loop (and \<open>plugin\<close>) in the middle, its flag
    \<^verbatim>\<open>looping\<close> stays set, and no further key is started.
\<close>

fun eachOfLimit ::
  "nat \<Rightarrow> (string list \<Rightarrow> string \<Rightarrow> call list \<times> (error + outcome)) \<Rightarrow> string list object
     \<Rightarrow> (string \<times> call list \<times> (error + outcome)) list" where
  "eachOfLimit free iter [] = []"
| "eachOfLimit free iter ((key, val) # rest) =
     (if free = 0 then []
      else
        (key, iter val key) #
          (case snd (iter val key) of
             Inr v \<Rightarrow> eachOfLimit free iter rest
           | Inl Stalled \<Rightarrow> eachOfLimit (free - 1) iter rest
           | Inl e \<Rightarrow> []))"

text \<open>
  \<^verbatim>\<open>async.mapValuesLimit(obj, limit, iteratee, callback)\<close>, up to the final callback:
  \<^verbatim>\<open>eachOfLimit\<close> throws a RangeError when the limit is not positive.
\<close>

definition mapValuesLimit ::
  "string list object \<Rightarrow> nat \<Rightarrow> (string list \<Rightarrow> string \<Rightarrow> call list \<times> (error + outcome))
     \<Rightarrow> error + (string \<times> call list \<times> (error + outcome)) list" where
  "mapValuesLimit obj limit iter =
     (if limit = 0 then Inl RangeError else Inr (eachOfLimit limit iter obj))"

text \<open>
  The object \<^verbatim>\<open>result\<close> that the final callback receives, after every iteratee has called
  back.  An exception of an iteratee is the end of the run; otherwise, when an iteratee
  never calls back, the final callback is never called.
\<close>

fun collect :: "(string \<times> call list \<times> (error + outcome)) list \<Rightarrow> error + outcome object" where
  "collect [] = Inr []"
| "collect ((link, calls, r) # rest) =
     (case r of
        Inl e \<Rightarrow> (case collect rest of Inl TypeError \<Rightarrow> Inl TypeError | _ \<Rightarrow> Inl e)
      | Inr v \<Rightarrow> (case collect rest of Inl e \<Rightarrow> Inl e | Inr result \<Rightarrow> Inr ((link, v) # result)))"

text \<open>
  \<^verbatim>\<open>filter((link) => result[link]).map((link) => `${link} (${result[link]})`)\<close> for one
  link: a line when \<^verbatim>\<open>result[link]\<close> is a non-empty string, nothing when it is
  \<^verbatim>\<open>null\<close>, \<^verbatim>\<open>undefined\<close> or the empty string.  Every link of \<^verbatim>\<open>filenamesToLinks\<close> went
  through \<open>pushKey\<close> before, so none names an inherited property.
\<close>

definition linkError :: "outcome object \<Rightarrow> string \<Rightarrow> string option" where
  "linkError result link =
     (case map_of result link of
        Some (Some reason) \<Rightarrow> if reason = [] then None else Some (link @ '' ('' @ reason @ '')'')
      | _ \<Rightarrow> None)"

definition filenamesToLinkErrors :: "string list object \<Rightarrow> outcome object \<Rightarrow> string list object" where
  "filenamesToLinkErrors filenamesToLinks result =
     foldl (\<lambda>obj (filename, links).
              let linkErrors = List.map_filter (linkError result) links
              in if length linkErrors \<noteq> 0 then AList.update filename linkErrors obj else obj)
       [] filenamesToLinks"

text \<open>The message, without its heading\<close>

definition message :: "string list object \<Rightarrow> string" where
  "message errors =
     joinWith ''\<newline>\<newline>''
       (map (\<lambda>filename.
               let output = joinWith ''\<newline>''
                     (map (\<lambda>link. ''  '' @ link)
                        (sort (case map_of errors filename of Some links \<Rightarrow> links | None \<Rightarrow> [])))
               in filename @ '':\<newline>'' @ output)
          (sort (map fst errors)))"

text \<open>
  The calls of \<^verbatim>\<open>done\<close>, in order: \<open>Done (Some m)\<close> is \<^verbatim>\<open>done(m)\<close>, \<open>Done None\<close> is
  \<^verbatim>\<open>done()\<close>.  Every callback of the iteratee passes \<^verbatim>\<open>null\<close> as its error, so the
  branch \<^verbatim>\<open>if (err) { done(err); return; }\<close> is not taken.
\<close>

datatype completion = Done "string option"

definition finish :: "string list object \<Rightarrow> completion list" where
  "finish errors =
     (if length (map fst errors) \<noteq> 0
      then [Done (Some (''Broken links found:\<newline>\<newline>'' @ message errors))]
      else [])
     @ [Done None]"

text \<open>The runs of the iteratee over the links that are not ignored\<close>

definition validations ::
  "env \<Rightarrow> string list \<Rightarrow> string list object \<Rightarrow> error + (string \<times> call list \<times> (error + outcome)) list" where
  "validations E fileKeys filenamesToLinks =
     (case flipObjectOfArrays filenamesToLinks of
        Inl e \<Rightarrow> Inl e
      | Inr linksToFilenames \<Rightarrow>
          mapValuesLimit (processIgnored E linksToFilenames) (parallelism E)
            (iteratee E (normalizedFilenames fileKeys)))"

text \<open>
  The function that the plugin returns, from \<^verbatim>\<open>Object.keys(files)\<close> and the result of
  \<^verbatim>\<open>htmlLinks\<close> to the calls of \<^verbatim>\<open>done\<close>; \<open>Inl Stalled\<close> when \<^verbatim>\<open>done\<close> is never
  called.
\<close>

definition plugin :: "env \<Rightarrow> string list \<Rightarrow> string list object \<Rightarrow> error + completion list" where
  "plugin E fileKeys filenamesToLinks =
     (case validations E fileKeys filenamesToLinks of
        Inl e \<Rightarrow> Inl e
      | Inr runs \<Rightarrow>
          (case collect runs of
             Inl e \<Rightarrow> Inl e
           | Inr result \<Rightarrow> Inr (finish (filenamesToLinkErrors filenamesToLinks result))))"

section \<open>Vocabulary of the statements\<close>

text \<open>The library that \<open>validUrl\<close> chooses for a link\<close>

definition chosenLibrary :: "string \<Rightarrow> library" where
  "chosenLibrary link = (if take 5 link = ''https'' then Https else Http)"

text \<open>
  The reply that ends the probe of a link once the retry policy is exhausted: the reply
  to the \<^verbatim>\<open>GET\<close> request when the \<^verbatim>\<open>HEAD\<close> request was answered with status 405, the
  reply to the \<^verbatim>\<open>HEAD\<close> request otherwise.
\<close>

definition finalReply :: "env \<Rightarrow> string \<Rightarrow> reply" where
  "finalReply E link =
     (case request E (chosenLibrary link) HEAD link of
        Response statusCode \<Rightarrow>
          if statusCode = 405 then request E (chosenLibrary link) GET link
          else Response statusCode
      | r \<Rightarrow> r)"

text \<open>What one request of \<open>validUrl\<close> that is not retried yields\<close>

definition classify :: "http_method \<Rightarrow> string \<Rightarrow> reply \<Rightarrow> call list \<times> (error + outcome)" where
  "classify m link r =
     ([Request (chosenLibrary link) m link],
      case r of
        Throws \<Rightarrow> Inl TypeError
      | Silent \<Rightarrow> Inl Stalled
      | Failure msg \<Rightarrow> Inr (Some msg)
      | Response statusCode \<Rightarrow>
          if 400 \<le> statusCode \<and> statusCode \<le> 599 then Inr (Some (''HTTP '' @ showNat statusCode))
          else Inr None)"

text \<open>\<^verbatim>\<open>filenamesToLinks[filename]\<close>\<close>

definition linksOf :: "string list object \<Rightarrow> string \<Rightarrow> string list" where
  "linksOf filenamesToLinks filename =
     (case map_of filenamesToLinks filename of Some links \<Rightarrow> links | None \<Rightarrow> [])"

text \<open>A request that ends with a response or with an error event\<close>

definition answered :: "reply \<Rightarrow> bool" where
  "answered r =
     (case r of
        Response statusCode \<Rightarrow> True
      | Failure msg \<Rightarrow> True
      | Throws \<Rightarrow> False
      | Silent \<Rightarrow> False)"

text \<open>A link that the iteratee hands to \<open>validUrl\<close>\<close>

definition remote :: "env \<Rightarrow> string \<Rightarrow> bool" where
  "remote E link = (scheme E link = Some ''http'' \<or> scheme E link = Some ''https'')"

text \<open>
  Every probe is answered: for every cited link that goes to \<open>validUrl\<close>, the library
  accepts the link and both requests that \<open>validUrl\<close> can make end with a response or with
  an error event.
\<close>

definition probesAnswered :: "env \<Rightarrow> string list object \<Rightarrow> bool" where
  "probesAnswered E filenamesToLinks =
     list_all (\<lambda>(filename, links).
        list_all (\<lambda>link.
           ignored E link \<or> \<not> remote E link
           \<or> (answered (request E (chosenLibrary link) HEAD link)
               \<and> answered (request E (chosenLibrary link) GET link))) links)
       filenamesToLinks"

text \<open>
  An environment for the examples: a URL parser that knows three schemes, a server that
  rejects \<^verbatim>\<open>HEAD\<close> with status 405 and answers \<^verbatim>\<open>GET\<close> with 200, a page that is missing, a
  server that accepts the connection and never answers, hosts that refuse the connection,
  one ignore pattern, and room for four probes at a time.
\<close>

definition exampleEnv :: env where
  "exampleEnv =
     \<lparr>scheme = (\<lambda>input.
        if take 8 input = ''https://'' \<or> take 8 input = ''HTTPS://'' then Some ''https''
        else if take 7 input = ''http://'' then Some ''http''
        else if take 7 input = ''mailto:'' then Some ''mailto''
        else None),
      network = (\<lambda>library m link.
        if link = ''https://a.example/'' then (if m = HEAD then Answers 405 else Answers 200)
        else if link = ''http://b.example/gone'' then Answers 404
        else if link = ''http://silent.example/'' then Hangs
        else Errors ''connect ECONNREFUSED''),
      ignored = (\<lambda>link. link = ''skip.html''),
      parallelism = 4\<rparr>"

text \<open>
  \<open>represents out cs\<close>: the object \<open>out\<close> holds exactly the citations \<open>cs\<close>, every cited
  value once as a key, with the citing keys as its array.
\<close>

definition represents :: "string list object \<Rightarrow> (string \<times> string) list \<Rightarrow> bool" where
  "represents out cs =
     (distinct (map fst out) \<and>
      (\<forall>val. map_of out val = (if citing cs val = [] then None else Some (citing cs val))))"

section \<open>Properties\<close>

subsection \<open>The flip step\<close>

lemma represents_empty: "represents [] []"
  by (simp add: represents_def citing_def)

lemma pushKey_represents:
  assumes "represents out cs" "val \<notin> set prototypeNames"
  shows "\<exists>out'. pushKey out val key = Inr out' \<and> represents out' (cs @ [(key, val)])"
  using assms
  by (auto simp: pushKey_def getProp_def represents_def citing_def update_conv' distinct_update
        split: option.splits if_splits)

lemma flipVals_represents:
  assumes "represents out cs" "set vals \<inter> set prototypeNames = {}"
  shows "\<exists>out'. flipVals key vals out = Inr out' \<and> represents out' (cs @ map (Pair key) vals)"
  using assms
proof (induction vals arbitrary: out cs)
  case Nil
  then show ?case by simp
next
  case (Cons val vals)
  from Cons.prems have "val \<notin> set prototypeNames" by auto
  from pushKey_represents [OF Cons.prems(1) this, of key] obtain out' where
    o: "pushKey out val key = Inr out'" "represents out' (cs @ [(key, val)])" by blast
  from Cons.IH [OF o(2)] Cons.prems(2) show ?case using o(1) by auto
qed

lemma citations_Nil: "citations [] = []"
  by (simp add: citations_def)

lemma citations_Cons: "citations ((key, vals) # input) = map (Pair key) vals @ citations input"
  by (simp add: citations_def)

lemma flipKeys_represents:
  assumes "represents out cs"
    and "\<forall>(key, vals) \<in> set input. set vals \<inter> set prototypeNames = {}"
  shows "\<exists>out'. flipKeys input out = Inr out' \<and> represents out' (cs @ citations input)"
  using assms
proof (induction input arbitrary: out cs)
  case Nil
  then show ?case by (simp add: citations_Nil)
next
  case (Cons e input)
  obtain key vals where e: "e = (key, vals)" by (cases e)
  from Cons.prems e have "set vals \<inter> set prototypeNames = {}" by auto
  from flipVals_represents [OF Cons.prems(1) this, of key] obtain out' where
    o: "flipVals key vals out = Inr out'" "represents out' (cs @ map (Pair key) vals)" by blast
  from Cons.IH [OF o(2)] Cons.prems(2) show ?case using o(1) e by (auto simp: citations_Cons)
qed

lemma citing_Pair: "citing (map (Pair key) vals) val = replicate (count_list vals val) key"
  by (induction vals) (auto simp: citing_def)

lemma citing_append: "citing (xs @ ys) val = citing xs val @ citing ys val"
  by (simp add: citing_def)

lemma citing_citations:
  "citing (citations input) val =
     concat (map (\<lambda>(key, vals). replicate (count_list vals val) key) input)"
proof (induction input)
  case Nil
  show ?case by (simp add: citations_Nil citing_def)
next
  case (Cons e input)
  obtain key vals where e: "e = (key, vals)" by (cases e)
  with Cons.IH show ?case by (simp add: citations_Cons citing_append citing_Pair)
qed

lemma citing_Nil_iff: "citing cs val = [] \<longleftrightarrow> val \<notin> snd ` set cs"
  by (induction cs) (auto simp: citing_def)

lemma represents_keys:
  assumes "represents out cs"
  shows "set (map fst out) = snd ` set cs"
proof -
  have "val \<in> set (map fst out) \<longleftrightarrow> val \<in> snd ` set cs" for val
  proof -
    have "val \<in> set (map fst out) \<longleftrightarrow> map_of out val \<noteq> None"
      by (simp add: map_of_eq_None_iff)
    also have "\<dots> \<longleftrightarrow> citing cs val \<noteq> []"
      using assms by (simp add: represents_def)
    finally show ?thesis by (simp add: citing_Nil_iff)
  qed
  then show ?thesis by blast
qed

lemma set_citations: "snd ` set (citations input) = \<Union> (set ` snd ` set input)"
proof (induction input)
  case Nil
  show ?case by (simp add: citations_Nil)
next
  case (Cons e input)
  obtain key vals where e: "e = (key, vals)" by (cases e)
  have "snd ` set (citations (e # input)) = set vals \<union> snd ` set (citations input)"
    by (simp add: e citations_Cons image_Un image_image)
  with Cons.IH show ?case by (simp add: e)
qed

lemma flipObjectOfArrays_represents:
  assumes "\<forall>(key, vals) \<in> set input. set vals \<inter> set prototypeNames = {}"
  shows "\<exists>out. flipObjectOfArrays input = Inr out \<and> represents out (citations input)"
  using flipKeys_represents [OF represents_empty assms] by (simp add: flipObjectOfArrays_def)

lemma pushKey_Inr:
  assumes "pushKey out val key = Inr out'" "represents out cs"
  shows "represents out' (cs @ [(key, val)])"
proof -
  from assms(2) have d: "distinct (map fst out)"
    and m: "\<And>v. map_of out v = (if citing cs v = [] then None else Some (citing cs v))"
    by (simp_all add: represents_def)
  have c: "\<And>v. citing (cs @ [(key, val)]) v = citing cs v @ (if v = val then [key] else [])"
    by (simp add: citing_def)
  from assms(1) have o: "out' = AList.update val (citing cs val @ [key]) out"
    by (auto simp: pushKey_def getProp_def m split: if_splits)
  show ?thesis
    unfolding represents_def o by (simp add: distinct_update d update_conv' m c)
qed

lemma flipVals_Inr:
  assumes "flipVals key vals out = Inr out'" "represents out cs"
  shows "represents out' (cs @ map (Pair key) vals)"
  using assms
proof (induction vals arbitrary: out cs)
  case Nil
  then show ?case by simp
next
  case (Cons val vals)
  from Cons.prems(1) obtain out1 where
    p: "pushKey out val key = Inr out1" and f: "flipVals key vals out1 = Inr out'"
    by (auto split: sum.splits)
  from Cons.IH [OF f pushKey_Inr [OF p Cons.prems(2)]] show ?case by simp
qed

lemma flipKeys_Inr:
  assumes "flipKeys input out = Inr out'" "represents out cs"
  shows "represents out' (cs @ citations input)"
  using assms
proof (induction input arbitrary: out cs)
  case Nil
  then show ?case by (simp add: citations_Nil)
next
  case (Cons e input)
  obtain key vals where e: "e = (key, vals)" by (cases e)
  from Cons.prems(1) obtain out1 where
    v: "flipVals key vals out = Inr out1" and f: "flipKeys input out1 = Inr out'"
    by (auto simp: e split: sum.splits)
  from Cons.IH [OF f flipVals_Inr [OF v Cons.prems(2)]] show ?case
    by (simp add: e citations_Cons)
qed

lemma flipObjectOfArrays_Inr:
  assumes "flipObjectOfArrays input = Inr out"
  shows "represents out (citations input)"
  using flipKeys_Inr [OF _ represents_empty, of input out] assms
  by (simp add: flipObjectOfArrays_def)

text \<open>
  C6, as amended.  For an input none of whose array elements names a property of
  \<^verbatim>\<open>Object.prototype\<close>, the flip step returns an object in which every element of any
  array is a key exactly once; the array of a key lists the keys of the input that cite
  it in the order of \<^verbatim>\<open>Object.keys(input)\<close>, with one entry for each citation: a document
  that lists the reference \<open>n\<close> times occurs \<open>n\<close> times in a row.
\<close>

theorem flipObjectOfArrays_inverse:
  assumes "\<forall>(key, vals) \<in> set input. set vals \<inter> set prototypeNames = {}"
  shows "\<exists>out. flipObjectOfArrays input = Inr out
           \<and> distinct (map fst out)
           \<and> set (map fst out) = \<Union> (set ` snd ` set input)
           \<and> (\<forall>val \<in> set (map fst out).
                 map_of out val =
                   Some (concat (map (\<lambda>(key, vals). replicate (count_list vals val) key) input)))"
proof -
  from flipObjectOfArrays_represents [OF assms] obtain out where
    o: "flipObjectOfArrays input = Inr out" "represents out (citations input)" by auto
  have k: "set (map fst out) = \<Union> (set ` snd ` set input)"
    using represents_keys [OF o(2)] by (simp add: set_citations)
  have "map_of out val =
      Some (concat (map (\<lambda>(key, vals). replicate (count_list vals val) key) input))"
    if "val \<in> set (map fst out)" for val
  proof -
    from that have "citing (citations input) val \<noteq> []"
      using represents_keys [OF o(2)] by (simp add: citing_Nil_iff)
    then show ?thesis using o(2) by (simp add: represents_def citing_citations)
  qed
  then have v: "\<forall>val \<in> set (map fst out). map_of out val =
      Some (concat (map (\<lambda>(key, vals). replicate (count_list vals val) key) input))"
    by blast
  have d: "distinct (map fst out)"
    using o(2) by (simp add: represents_def)
  from o(1) d k v show ?thesis by blast
qed

theorem flipObjectOfArrays_inverse_witness:
  "\<exists>out. flipObjectOfArrays [(''a.html'', [''x'', ''y'', ''x'']), (''b.html'', [''y''])] = Inr out
      \<and> distinct (map fst out)
      \<and> set (map fst out) = {''x'', ''y''}
      \<and> map_of out ''x'' = Some [''a.html'', ''a.html'']
      \<and> map_of out ''y'' = Some [''a.html'', ''b.html'']"
proof -
  let ?input = "[(''a.html'', [''x'', ''y'', ''x'']), (''b.html'', [''y''])]"
  have h: "\<forall>(key, vals) \<in> set ?input. set vals \<inter> set prototypeNames = {}"
    by (simp add: prototypeNames_def)
  from flipObjectOfArrays_inverse [OF h] obtain out where
    o: "flipObjectOfArrays ?input = Inr out" "distinct (map fst out)"
       "set (map fst out) = \<Union> (set ` snd ` set ?input)"
       "\<forall>val \<in> set (map fst out). map_of out val =
          Some (concat (map (\<lambda>(key, vals). replicate (count_list vals val) key) ?input))"
    by blast
  have k: "set (map fst out) = {''x'', ''y''}"
    using o(3) by auto
  have x: "map_of out ''x'' = Some [''a.html'', ''a.html'']"
    using bspec [OF o(4), of "''x''"] k by simp
  have y: "map_of out ''y'' = Some [''a.html'', ''b.html'']"
    using bspec [OF o(4), of "''y''"] k by simp
  from o(1) o(2) k x y show ?thesis by blast
qed

text \<open>
  C6 as stated fails: a document that lists a reference twice is entered twice under
  that reference, and a reference that names a property of \<^verbatim>\<open>Object.prototype\<close> makes the
  flip step raise.
\<close>

theorem flipObjectOfArrays_counterexample:
  "flipObjectOfArrays [(''a.html'', [''x'', ''x''])] = Inr [(''x'', [''a.html'', ''a.html''])]
   \<and> \<not> distinct [''a.html'', ''a.html'']
   \<and> flipObjectOfArrays [(''a.html'', [''toString''])] = Inl TypeError"
  by (simp add: flipObjectOfArrays_def pushKey_def getProp_def prototypeNames_def)

subsection \<open>The example environment\<close>

lemma exampleEnv_scheme:
  "scheme exampleEnv input =
     (if take 8 input = ''https://'' \<or> take 8 input = ''HTTPS://'' then Some ''https''
      else if take 7 input = ''http://'' then Some ''http''
      else if take 7 input = ''mailto:'' then Some ''mailto''
      else None)"
  by (simp add: exampleEnv_def)

lemma exampleEnv_request:
  "request exampleEnv library m link =
     (if urlParse exampleEnv link = Some (libraryProtocol library) then
        (if link = ''https://a.example/'' then (if m = HEAD then Response 405 else Response 200)
         else if link = ''http://b.example/gone'' then Response 404
         else if link = ''http://silent.example/'' then Silent
         else Failure ''connect ECONNREFUSED'')
      else Throws)"
  by (simp add: request_def exampleEnv_def)

lemma exampleEnv_ignored: "ignored exampleEnv link = (link = ''skip.html'')"
  by (simp add: exampleEnv_def)

lemma exampleEnv_parallelism: "parallelism exampleEnv = 4"
  by (simp add: exampleEnv_def)

subsection \<open>Local resolution\<close>

lemma stripAnchor_noSlash: "noSlash (stripAnchor cs) = noSlash cs"
  by (induction cs) (auto simp: noSlash_def)

lemma stripAnchor_idem: "stripAnchor (stripAnchor cs) = stripAnchor cs"
proof (induction cs)
  case Nil
  show ?case by simp
next
  case (Cons c cs)
  show ?case
  proof (cases "c = CHR ''#'' \<and> noSlash cs")
    case True
    then show ?thesis by simp
  next
    case False
    then have "\<not> (c = CHR ''#'' \<and> noSlash (stripAnchor cs))"
      by (simp add: stripAnchor_noSlash)
    with False Cons.IH show ?thesis by auto
  qed
qed

lemma stripAnchor_no_hash: "CHR ''#'' \<notin> set cs \<Longrightarrow> stripAnchor cs = cs"
  by (induction cs) auto

lemma stripAnchor_first_hash:
  "CHR ''#'' \<notin> set pre \<Longrightarrow>
     stripAnchor (pre @ CHR ''#'' # frag) =
       (if noSlash frag then pre else pre @ CHR ''#'' # stripAnchor frag)"
  by (induction pre) auto

lemma hasProp_iff: "hasProp obj key \<longleftrightarrow> key \<in> fst ` set obj \<or> key \<in> set prototypeNames"
  unfolding hasProp_def getProp_def using map_of_eq_None_iff [of obj key]
  by (auto split: option.splits)

text \<open>
  C9, as amended.  Local resolution first removes, from the leftmost \<^verbatim>\<open>#\<close> after which
  no slash or backslash occurs, the rest of the reference (a \<^verbatim>\<open>#\<close> that a slash or
  backslash follows is kept, and the search goes on behind it); the verdict depends on the
  reference only through what is left.  A reference that is then the empty string,
  \<^verbatim>\<open>.\<close> or \<^verbatim>\<open>./\<close>, before or after it is joined with the directory of the citing
  document, is valid.
\<close>

theorem validLocal_self_reference:
  "validLocal files src dest = validLocal files src (stripAnchor dest)
   \<and> (CHR ''#'' \<notin> set dest \<longrightarrow> stripAnchor dest = dest)
   \<and> (CHR ''#'' \<notin> set pre \<longrightarrow>
        stripAnchor (pre @ CHR ''#'' # frag) =
          (if noSlash frag then pre else pre @ CHR ''#'' # stripAnchor frag))
   \<and> (stripAnchor dest \<in> {[], ''.'', ''./''} \<longrightarrow> validLocal files src dest)
   \<and> (join [dirname src, stripAnchor dest] \<in> {[], ''.'', ''./''} \<longrightarrow> validLocal files src dest)"
  by (auto simp: validLocal_def Let_def stripAnchor_idem stripAnchor_no_hash stripAnchor_first_hash)

theorem validLocal_self_reference_witness:
  "CHR ''#'' \<notin> set ''..''
   \<and> stripAnchor (''..'' @ CHR ''#'' # ''top'') = ''..''
   \<and> join [dirname ''blog/post.html'', stripAnchor ''..#top''] \<in> {[], ''.'', ''./''}
   \<and> validLocal [] ''blog/post.html'' ''..#top''
   \<and> CHR ''#'' \<notin> set ''./''
   \<and> stripAnchor ''./'' \<in> {[], ''.'', ''./''}
   \<and> validLocal [] ''a.html'' ''./''"
proof -
  note t = validLocal_self_reference [of "[]" "''blog/post.html''" "''..#top''" "''..''" "''top''"]
  note u = validLocal_self_reference [of "[]" "''a.html''" "''./''" "''..''" "''top''"]
  have h: "CHR ''#'' \<notin> set ''..''" by simp
  have s: "stripAnchor (''..'' @ CHR ''#'' # ''top'') = ''..''"
    using t h by (simp add: noSlash_def)
  have j: "join [dirname ''blog/post.html'', stripAnchor ''..#top''] \<in> {[], ''.'', ''./''}"
    by (simp add: dirname_def join_def normalize_def noSlash_def)
  have v: "validLocal [] ''blog/post.html'' ''..#top''"
    using t j by blast
  have h': "CHR ''#'' \<notin> set ''./''" by simp
  have s': "stripAnchor ''./'' \<in> {[], ''.'', ''./''}"
    using u h' by simp
  have v': "validLocal [] ''a.html'' ''./''"
    using u s' by blast
  from h s j v h' s' v' show ?thesis by blast
qed

text \<open>
  C9 as stated fails: the fragment of \<^verbatim>\<open>#/top\<close> contains a slash, so it is not stripped, and
  the reference, which points into the citing document itself, is judged broken.
\<close>

theorem validLocal_fragment_counterexample:
  "stripAnchor ''#/top'' = ''#/top''
   \<and> \<not> validLocal (normalizedFilenames [''a.html'']) ''a.html'' ''#/top''"
  by (simp add: validLocal_def normalizedFilenames_def normalizeSep_def dirname_def join_def
      normalize_def hasProp_def getProp_def prototypeNames_def noSlash_def)

text \<open>
  C2.  The source tests \<^verbatim>\<open>linkPath in files\<close>, and the \<^verbatim>\<open>in\<close> operator also finds the
  properties that the object inherits from \<^verbatim>\<open>Object.prototype\<close>.  In a file set that
  holds \<^verbatim>\<open>index.html\<close> alone, the reference \<^verbatim>\<open>./toString\<close> of \<^verbatim>\<open>index.html\<close> joins to
  \<^verbatim>\<open>toString\<close>; neither that path nor \<^verbatim>\<open>toString/index.html\<close> is a key of the file set,
  and the reference is judged valid.
\<close>

theorem validLocal_inherited_name:
  "validLocal (normalizedFilenames [''index.html'']) ''index.html'' ''./toString''
   \<and> map fst (normalizedFilenames [''index.html'']) = [''index.html'']
   \<and> join [dirname ''index.html'', stripAnchor ''./toString''] = ''toString''
   \<and> join [''toString'', ''index.html''] = ''toString/index.html''"
  by (simp add: validLocal_def normalizedFilenames_def normalizeSep_def dirname_def join_def
      normalize_def hasProp_def getProp_def prototypeNames_def noSlash_def)

text \<open>
  Apart from the inherited names, the verdict is membership of the joined path, or of its
  index document, among the keys of the file set.
\<close>

lemma validLocal_iff:
  "validLocal files src dest \<longleftrightarrow>
     stripAnchor dest \<in> {[], ''.'', ''./''}
     \<or> join [dirname src, stripAnchor dest] \<in> {[], ''.'', ''./''}
     \<or> join [dirname src, stripAnchor dest] \<in> fst ` set files
     \<or> join [join [dirname src, stripAnchor dest], ''index.html''] \<in> fst ` set files
     \<or> join [dirname src, stripAnchor dest] \<in> set prototypeNames
     \<or> join [join [dirname src, stripAnchor dest], ''index.html''] \<in> set prototypeNames"
  by (auto simp: validLocal_def Let_def hasProp_iff)

lemma validLocal_index_fallback:
  "validLocal (normalizedFilenames [''a.html'', ''about/index.html'']) ''a.html'' ''./about''
   \<and> ''about'' \<notin> fst ` set (normalizedFilenames [''a.html'', ''about/index.html''])"
  by (simp add: validLocal_def normalizedFilenames_def normalizeSep_def dirname_def join_def
      normalize_def hasProp_def getProp_def prototypeNames_def noSlash_def)

subsection \<open>The remote validator\<close>

lemma validUrl_GET:
  "validUrl E link GET = classify GET link (request E (chosenLibrary link) GET link)"
  by (simp add: validUrl.simps [of E link GET] classify_def chosenLibrary_def Let_def
      split: reply.splits)

lemma validUrl_HEAD:
  "validUrl E link HEAD =
     (if request E (chosenLibrary link) HEAD link = Response 405
      then (Request (chosenLibrary link) HEAD link # fst (validUrl E link GET),
            snd (validUrl E link GET))
      else classify HEAD link (request E (chosenLibrary link) HEAD link))"
  by (simp add: validUrl.simps [of E link HEAD] classify_def chosenLibrary_def Let_def
      split: reply.splits prod.splits)

lemma validUrl_calls:
  "fst (validUrl E link HEAD) =
     Request (chosenLibrary link) HEAD link #
       (if request E (chosenLibrary link) HEAD link = Response 405
        then [Request (chosenLibrary link) GET link] else [])"
  by (simp add: validUrl_HEAD validUrl_GET classify_def)

text \<open>
  C3.  The validator first issues a \<^verbatim>\<open>HEAD\<close> request.  If and only if the reply is a
  response of status 405, one \<^verbatim>\<open>GET\<close> request to the same link follows, whatever that
  request ends with, and its outcome is the outcome of the probe; a response to it with a
  status outside 400..599 makes the link valid.  No other reply to the \<^verbatim>\<open>HEAD\<close> request
  is followed by a second request.
\<close>

theorem validUrl_retry:
  "fst (validUrl E link HEAD) =
     (if request E (chosenLibrary link) HEAD link = Response 405
      then [Request (chosenLibrary link) HEAD link, Request (chosenLibrary link) GET link]
      else [Request (chosenLibrary link) HEAD link])
   \<and> (request E (chosenLibrary link) HEAD link = Response 405 \<longrightarrow>
        snd (validUrl E link HEAD) = snd (validUrl E link GET))
   \<and> fst (validUrl E link GET) = [Request (chosenLibrary link) GET link]
   \<and> (\<forall>statusCode.
        request E (chosenLibrary link) HEAD link = Response 405 \<and>
        request E (chosenLibrary link) GET link = Response statusCode \<and>
        (statusCode < 400 \<or> 599 < statusCode) \<longrightarrow>
        snd (validUrl E link HEAD) = Inr None)"
  by (auto simp: validUrl_HEAD validUrl_GET classify_def)

theorem validUrl_retry_witness:
  "fst (validUrl exampleEnv ''https://a.example/'' HEAD) =
     [Request Https HEAD ''https://a.example/'', Request Https GET ''https://a.example/'']
   \<and> request exampleEnv Https HEAD ''https://a.example/'' = Response 405
   \<and> request exampleEnv Https GET ''https://a.example/'' = Response 200
   \<and> snd (validUrl exampleEnv ''https://a.example/'' HEAD) = Inr None
   \<and> fst (validUrl exampleEnv ''http://b.example/gone'' HEAD) =
       [Request Http HEAD ''http://b.example/gone'']"
  using validUrl_retry [of exampleEnv "''https://a.example/''"]
    validUrl_retry [of exampleEnv "''http://b.example/gone''"]
  by (auto simp: exampleEnv_request exampleEnv_scheme urlParse_def libraryProtocol_def
      chosenLibrary_def)

text \<open>
  Once the retry policy is exhausted, a response with a status in 400..599 gives the error
  \<^verbatim>\<open>HTTP <code>\<close>, an error event gives its message, every other response gives \<^verbatim>\<open>null\<close>.
\<close>

lemma validUrl_classification:
  "(\<forall>statusCode.
      finalReply E link = Response statusCode \<and> 400 \<le> statusCode \<and> statusCode \<le> 599 \<longrightarrow>
      snd (validUrl E link HEAD) = Inr (Some (''HTTP '' @ showNat statusCode)))
   \<and> (\<forall>msg.
        finalReply E link = Failure msg \<longrightarrow> snd (validUrl E link HEAD) = Inr (Some msg))
   \<and> (\<forall>statusCode.
        finalReply E link = Response statusCode \<and> (statusCode < 400 \<or> 599 < statusCode) \<longrightarrow>
        snd (validUrl E link HEAD) = Inr None)"
  by (auto simp: validUrl_HEAD validUrl_GET classify_def finalReply_def split: reply.splits if_splits)

lemma validUrl_no_response:
  "snd (validUrl E link HEAD) = Inr (Some ''no response'') \<longleftrightarrow>
     finalReply E link = Failure ''no response''"
  by (auto simp: validUrl_HEAD validUrl_GET classify_def finalReply_def split: reply.splits if_splits)

text \<open>
  C4.  A server that accepts the connection and then stays silent gives the request neither
  a response nor an error event; the request was given the option \<^verbatim>\<open>timeout\<close>, but no
  listener for \<^verbatim>\<open>'timeout'\<close> ends it.  For such a link \<open>validUrl\<close> makes its \<^verbatim>\<open>HEAD\<close> request
  and never calls back, so the timeout is not classified as an error, and the run of the
  plugin over a document that cites the link never calls \<^verbatim>\<open>done\<close>.
\<close>

theorem validUrl_timeout_never_calls_back:
  "request exampleEnv Http HEAD ''http://silent.example/'' = Silent
   \<and> validUrl exampleEnv ''http://silent.example/'' HEAD =
       ([Request Http HEAD ''http://silent.example/''], Inl Stalled)
   \<and> plugin exampleEnv [''a.html''] [(''a.html'', [''http://silent.example/''])] = Inl Stalled"
  by code_simp

subsection \<open>Dispatch\<close>

lemma iteratee_remote:
  "scheme E link = Some s \<Longrightarrow> s = ''http'' \<or> s = ''https'' \<Longrightarrow>
     iteratee E files filenames link = validUrl E link HEAD"
  by (auto simp: iteratee_def urlParse_def protocolValidators_def)

lemma iteratee_other:
  "scheme E link = Some s \<Longrightarrow> s \<noteq> ''http'' \<Longrightarrow> s \<noteq> ''https'' \<Longrightarrow>
     iteratee E files filenames link = ([], Inr None)"
  by (auto simp: iteratee_def urlParse_def protocolValidators_def)

lemma iteratee_local:
  "scheme E link = None \<Longrightarrow>
     iteratee E files filenames link =
       (map (\<lambda>filename. Local filename link) filenames,
        Inr (if list_all (\<lambda>filename. validLocal files filename link) filenames then None
             else Some ''not found''))"
  by (auto simp: iteratee_def urlParse_def filter_empty_conv list_all_iff)

text \<open>
  C7.  The iteratee dispatches on the scheme that URL parsing finds: with \<^verbatim>\<open>http\<close> or
  \<^verbatim>\<open>https\<close> it is the remote validator, started with \<^verbatim>\<open>HEAD\<close>, which makes requests
  only; with any other scheme the outcome is valid and no validator is invoked; without a
  scheme the local resolver is invoked for the citing documents, and the outcome is valid
  when it accepts the link for all of them.  The three cases cover every link.
\<close>

theorem iteratee_dispatch:
  "(\<forall>s. scheme E link = Some s \<and> (s = ''http'' \<or> s = ''https'') \<longrightarrow>
        iteratee E files filenames link = validUrl E link HEAD)
   \<and> (\<forall>s. scheme E link = Some s \<and> s \<noteq> ''http'' \<and> s \<noteq> ''https'' \<longrightarrow>
        iteratee E files filenames link = ([], Inr None))
   \<and> (scheme E link = None \<longrightarrow>
        iteratee E files filenames link =
          (map (\<lambda>filename. Local filename link) filenames,
           Inr (if list_all (\<lambda>filename. validLocal files filename link) filenames then None
                else Some ''not found'')))
   \<and> list_all (\<lambda>c. c = Request (chosenLibrary link) HEAD link \<or> c = Request (chosenLibrary link) GET link)
        (fst (validUrl E link HEAD))"
  using iteratee_remote [of E link _ files filenames] iteratee_other [of E link _ files filenames]
    iteratee_local [of E link files filenames]
  by (auto simp: validUrl_calls)

theorem iteratee_dispatch_witness:
  "scheme exampleEnv ''https://a.example/'' = Some ''https''
   \<and> iteratee exampleEnv [] [''a.html''] ''https://a.example/'' =
       validUrl exampleEnv ''https://a.example/'' HEAD
   \<and> scheme exampleEnv ''mailto:x@a.example'' = Some ''mailto''
   \<and> iteratee exampleEnv [] [''a.html''] ''mailto:x@a.example'' = ([], Inr None)
   \<and> scheme exampleEnv ''x.html'' = None
   \<and> iteratee exampleEnv [] [''a.html''] ''x.html'' =
       ([Local ''a.html'' ''x.html''], Inr (Some ''not found''))"
proof -
  have v: "\<not> validLocal [] ''a.html'' ''x.html''"
    by (simp add: validLocal_def dirname_def join_def normalize_def hasProp_def getProp_def
        prototypeNames_def noSlash_def)
  show ?thesis
    using iteratee_dispatch [of exampleEnv "''https://a.example/''" "[]" "[''a.html'']"]
      iteratee_dispatch [of exampleEnv "''mailto:x@a.example''" "[]" "[''a.html'']"]
      iteratee_dispatch [of exampleEnv "''x.html''" "[]" "[''a.html'']"] v
    by (simp add: exampleEnv_scheme)
qed

subsection \<open>One validation for every distinct reference\<close>

lemma represents_entry:
  assumes "represents out cs" "(val, keys) \<in> set out"
  shows "keys = citing cs val"
proof -
  from assms have "distinct (map fst out)"
    by (simp add: represents_def)
  then have "map_of out val = Some keys"
    using assms(2) by (rule map_of_is_SomeI)
  moreover from assms(1) have
    "map_of out val = (if citing cs val = [] then None else Some (citing cs val))"
    by (simp add: represents_def)
  ultimately show ?thesis
    by (simp split: if_splits)
qed


lemma eachOfLimit_set:
  "set (eachOfLimit free iter obj) \<subseteq> set (map (\<lambda>(key, val). (key, iter val key)) obj)"
  by (induction free iter obj rule: eachOfLimit.induct) (auto split: sum.splits error.splits)

lemma eachOfLimit_keys: "set (map fst (eachOfLimit free iter obj)) \<subseteq> set (map fst obj)"
  using eachOfLimit_set [of free iter obj] by force

lemma eachOfLimit_distinct:
  "distinct (map fst obj) \<Longrightarrow> distinct (map fst (eachOfLimit free iter obj))"
proof (induction obj arbitrary: free)
  case Nil
  show ?case by simp
next
  case (Cons e obj)
  obtain key val where e: "e = (key, val)" by (cases e)
  have "key \<notin> set (map fst (eachOfLimit n iter obj))" for n
    using Cons.prems eachOfLimit_keys [of n iter obj] by (auto simp: e)
  with Cons show ?case
    by (auto simp: e split: sum.splits error.splits)
qed

lemma eachOfLimit_all:
  assumes "0 < free" "\<forall>(key, val) \<in> set obj. \<exists>v. snd (iter val key) = Inr v"
  shows "eachOfLimit free iter obj = map (\<lambda>(key, val). (key, iter val key)) obj"
  using assms by (induction obj) auto

lemma validations_Inr:
  assumes "validations E fileKeys ftl = Inr runs"
  shows "\<exists>ltf. represents ltf (citations ftl) \<and>
           runs = eachOfLimit (parallelism E) (iteratee E (normalizedFilenames fileKeys))
                    (processIgnored E ltf)"
proof -
  from assms obtain ltf where
    f: "flipObjectOfArrays ftl = Inr ltf" and
    m: "mapValuesLimit (processIgnored E ltf) (parallelism E)
          (iteratee E (normalizedFilenames fileKeys)) = Inr runs"
    by (auto simp: validations_def split: sum.splits)
  from m have "runs = eachOfLimit (parallelism E) (iteratee E (normalizedFilenames fileKeys))
      (processIgnored E ltf)"
    by (auto simp: mapValuesLimit_def split: if_splits)
  with flipObjectOfArrays_Inr [OF f] show ?thesis by blast
qed

lemma iteratee_calls:
  "fst (iteratee E files filenames link) =
     (case scheme E link of
        Some s \<Rightarrow>
          if s = ''http'' \<or> s = ''https'' then
            Request (chosenLibrary link) HEAD link #
              (if request E (chosenLibrary link) HEAD link = Response 405
               then [Request (chosenLibrary link) GET link] else [])
          else []
      | None \<Rightarrow> map (\<lambda>filename. Local filename link) filenames)"
proof (cases "scheme E link")
  case None
  then show ?thesis by (simp add: iteratee_local)
next
  case (Some s)
  show ?thesis
  proof (cases "s = ''http'' \<or> s = ''https''")
    case True
    with Some show ?thesis
      using iteratee_remote [OF Some True] by (simp add: validUrl_calls)
  next
    case False
    with Some show ?thesis
      using iteratee_other [OF Some] by simp
  qed
qed


lemma classify_answered: "answered r \<Longrightarrow> \<exists>v. snd (classify m link r) = Inr v"
  by (cases r) (auto simp: classify_def answered_def)

lemma validUrl_answered:
  assumes "answered (request E (chosenLibrary link) HEAD link)"
    and "answered (request E (chosenLibrary link) GET link)"
  shows "\<exists>v. snd (validUrl E link HEAD) = Inr v"
  using assms classify_answered by (simp add: validUrl_HEAD validUrl_GET)

lemma iteratee_answered:
  assumes "remote E link \<longrightarrow>
      answered (request E (chosenLibrary link) HEAD link) \<and>
      answered (request E (chosenLibrary link) GET link)"
  shows "\<exists>v. snd (iteratee E files filenames link) = Inr v"
proof (cases "scheme E link")
  case None
  then show ?thesis by (simp add: iteratee_local)
next
  case (Some s)
  show ?thesis
  proof (cases "s = ''http'' \<or> s = ''https''")
    case True
    with Some have "remote E link" by (auto simp: remote_def)
    with assms validUrl_answered show ?thesis
      by (simp add: iteratee_remote [OF Some True])
  next
    case False
    with iteratee_other [OF Some] show ?thesis by simp
  qed
qed

lemma probesAnswered_link:
  assumes "probesAnswered E ftl" "(filename, links) \<in> set ftl" "link \<in> set links"
    and "\<not> ignored E link" "remote E link"
  shows "answered (request E (chosenLibrary link) HEAD link) \<and>
         answered (request E (chosenLibrary link) GET link)"
  using assms by (auto simp: probesAnswered_def list_all_iff)

lemma validations_complete:
  assumes "\<forall>(key, vals) \<in> set ftl. set vals \<inter> set prototypeNames = {}"
    and "0 < parallelism E" and "probesAnswered E ftl"
  shows "\<exists>ltf. represents ltf (citations ftl) \<and>
           validations E fileKeys ftl =
             Inr (map (\<lambda>(link, filenames).
                         (link, iteratee E (normalizedFilenames fileKeys) filenames link))
                    (filter (\<lambda>(link, filenames). \<not> ignored E link) ltf)) \<and>
           (\<forall>(link, filenames) \<in> set (filter (\<lambda>(link, filenames). \<not> ignored E link) ltf).
              \<exists>v. snd (iteratee E (normalizedFilenames fileKeys) filenames link) = Inr v)"
proof -
  let ?iter = "iteratee E (normalizedFilenames fileKeys)"
  from flipObjectOfArrays_represents [OF assms(1)] obtain ltf where
    f: "flipObjectOfArrays ftl = Inr ltf" and rep: "represents ltf (citations ftl)" by blast
  have "\<exists>v. snd (?iter filenames link) = Inr v"
    if "(link, filenames) \<in> set (processIgnored E ltf)" for link filenames
  proof -
    from that have i: "\<not> ignored E link" and "link \<in> set (map fst ltf)"
      by (force simp: processIgnored_def)+
    then have "link \<in> \<Union> (set ` snd ` set ftl)"
      using represents_keys [OF rep] by (simp add: set_citations)
    then obtain filename links where "(filename, links) \<in> set ftl" "link \<in> set links"
      by auto
    with probesAnswered_link [OF assms(3) this i] show ?thesis
      by (intro iteratee_answered) blast
  qed
  then have a: "\<forall>(link, filenames) \<in> set (processIgnored E ltf).
      \<exists>v. snd (?iter filenames link) = Inr v" by blast
  have "validations E fileKeys ftl =
      Inr (map (\<lambda>(link, filenames). (link, ?iter filenames link)) (processIgnored E ltf))"
    using eachOfLimit_all [OF assms(2) a] f assms(2)
    by (simp add: validations_def mapValuesLimit_def)
  with rep a show ?thesis
    unfolding processIgnored_def by blast
qed

text \<open>
  C1, as amended.  In every run the iteratee is started at most once for a distinct
  reference, and only for references that no ignore pattern matches.  A started run makes,
  for a reference with the scheme \<^verbatim>\<open>http\<close> or \<^verbatim>\<open>https\<close>, one \<^verbatim>\<open>HEAD\<close> request and at most one
  \<^verbatim>\<open>GET\<close> request; for a reference with another scheme it invokes no validator; for a
  reference without a scheme it invokes the local resolver once for each citation, with the
  citing document of that citation.  The iteratee is started exactly once for every distinct
  reference that no ignore pattern matches when no reference names a property of
  \<^verbatim>\<open>Object.prototype\<close>, \<^verbatim>\<open>parallelism\<close> is positive, and every probe is answered (no request
  throws, none is left without a reply).
\<close>

theorem validations_once:
  "(\<forall>runs. validations E fileKeys ftl = Inr runs \<longrightarrow>
       distinct (map fst runs)
       \<and> set (map fst runs) \<subseteq> {link \<in> \<Union> (set ` snd ` set ftl). \<not> ignored E link}
       \<and> (\<forall>(link, calls, r) \<in> set runs.
             calls =
               (case scheme E link of
                  Some s \<Rightarrow>
                    if s = ''http'' \<or> s = ''https'' then
                      Request (chosenLibrary link) HEAD link #
                        (if request E (chosenLibrary link) HEAD link = Response 405
                         then [Request (chosenLibrary link) GET link] else [])
                    else []
                | None \<Rightarrow>
                    map (\<lambda>filename. Local filename link)
                      (concat (map (\<lambda>(key, vals). replicate (count_list vals link) key) ftl)))))
   \<and> ((\<forall>(key, vals) \<in> set ftl. set vals \<inter> set prototypeNames = {})
        \<and> 0 < parallelism E \<and> probesAnswered E ftl \<longrightarrow>
       (\<exists>runs. validations E fileKeys ftl = Inr runs
          \<and> set (map fst runs) = {link \<in> \<Union> (set ` snd ` set ftl). \<not> ignored E link}))"
proof (intro conjI allI impI)
  let ?files = "normalizedFilenames fileKeys"
  let ?p = "\<lambda>(link, filenames). \<not> ignored E link"
  fix runs
  assume v: "validations E fileKeys ftl = Inr runs"
  from validations_Inr [OF v] obtain ltf where
    rep: "represents ltf (citations ftl)" and
    r: "runs = eachOfLimit (parallelism E) (iteratee E ?files) (processIgnored E ltf)" by blast
  have keys: "set (map fst ltf) = \<Union> (set ` snd ` set ftl)"
    using represents_keys [OF rep] by (simp add: set_citations)
  have "distinct (map fst (processIgnored E ltf))"
    using rep by (simp add: represents_def processIgnored_def distinct_map_filter)
  then show "distinct (map fst runs)"
    unfolding r by (rule eachOfLimit_distinct)
  have "set (map fst (processIgnored E ltf)) = {link \<in> set (map fst ltf). \<not> ignored E link}"
    unfolding processIgnored_def by force
  then show "set (map fst runs) \<subseteq> {link \<in> \<Union> (set ` snd ` set ftl). \<not> ignored E link}"
    using eachOfLimit_keys [of "parallelism E" "iteratee E ?files" "processIgnored E ltf"]
    unfolding r keys by simp
  have "calls =
      (case scheme E link of
         Some s \<Rightarrow>
           if s = ''http'' \<or> s = ''https'' then
             Request (chosenLibrary link) HEAD link #
               (if request E (chosenLibrary link) HEAD link = Response 405
                then [Request (chosenLibrary link) GET link] else [])
           else []
       | None \<Rightarrow>
           map (\<lambda>filename. Local filename link)
             (concat (map (\<lambda>(key, vals). replicate (count_list vals link) key) ftl)))"
    if "(link, calls, r) \<in> set runs" for link calls r
  proof -
    from that eachOfLimit_set [of "parallelism E" "iteratee E ?files" "processIgnored E ltf"]
    obtain filenames where
      e: "(link, filenames) \<in> set ltf" and i: "iteratee E ?files filenames link = (calls, r)"
      unfolding r processIgnored_def by auto
    have "filenames = concat (map (\<lambda>(key, vals). replicate (count_list vals link) key) ftl)"
      using represents_entry [OF rep e] by (simp add: citing_citations)
    moreover have "calls = fst (iteratee E ?files filenames link)"
      using i by simp
    ultimately show ?thesis by (simp only: iteratee_calls)
  qed
  then show "\<forall>(link, calls, r) \<in> set runs.
      calls =
        (case scheme E link of
           Some s \<Rightarrow>
             if s = ''http'' \<or> s = ''https'' then
               Request (chosenLibrary link) HEAD link #
                 (if request E (chosenLibrary link) HEAD link = Response 405
                  then [Request (chosenLibrary link) GET link] else [])
             else []
         | None \<Rightarrow>
             map (\<lambda>filename. Local filename link)
               (concat (map (\<lambda>(key, vals). replicate (count_list vals link) key) ftl)))"
    by blast
next
  let ?files = "normalizedFilenames fileKeys"
  let ?g = "\<lambda>(link, filenames). (link, iteratee E ?files filenames link)"
  let ?p = "\<lambda>(link, filenames). \<not> ignored E link"
  assume a: "(\<forall>(key, vals) \<in> set ftl. set vals \<inter> set prototypeNames = {})
      \<and> 0 < parallelism E \<and> probesAnswered E ftl"
  then obtain ltf where
    rep: "represents ltf (citations ftl)" and
    v: "validations E fileKeys ftl = Inr (map ?g (filter ?p ltf))"
    using validations_complete [of ftl E fileKeys] by blast
  have keys: "set (map fst ltf) = \<Union> (set ` snd ` set ftl)"
    using represents_keys [OF rep] by (simp add: set_citations)
  have "map fst (map ?g (filter ?p ltf)) = map fst (filter ?p ltf)"
    by (simp add: case_prod_beta)
  moreover have "set (map fst (filter ?p ltf)) = {link \<in> set (map fst ltf). \<not> ignored E link}"
    by force
  ultimately have "set (map fst (map ?g (filter ?p ltf))) =
      {link \<in> \<Union> (set ` snd ` set ftl). \<not> ignored E link}"
    by (simp only: keys)
  with v show "\<exists>runs. validations E fileKeys ftl = Inr runs
      \<and> set (map fst runs) = {link \<in> \<Union> (set ` snd ` set ftl). \<not> ignored E link}"
    by blast
qed

theorem validations_once_witness:
  "validations exampleEnv [''a.html'', ''b.html'']
     [(''a.html'', [''x.html'', ''https://a.example/'', ''x.html'']),
      (''b.html'', [''x.html'', ''skip.html''])] =
     Inr [(''x.html'',
           [Local ''a.html'' ''x.html'', Local ''a.html'' ''x.html'', Local ''b.html'' ''x.html''],
           Inr (Some ''not found'')),
          (''https://a.example/'',
           [Request Https HEAD ''https://a.example/'', Request Https GET ''https://a.example/''],
           Inr None)]
   \<and> 0 < parallelism exampleEnv
   \<and> probesAnswered exampleEnv
        [(''a.html'', [''x.html'', ''https://a.example/'', ''x.html'']),
         (''b.html'', [''x.html'', ''skip.html''])]
   \<and> {link \<in> \<Union> (set ` snd ` set
          [(''a.html'', [''x.html'', ''https://a.example/'', ''x.html'']),
           (''b.html'', [''x.html'', ''skip.html''])]). \<not> ignored exampleEnv link} =
       {''x.html'', ''https://a.example/''}"
proof -
  let ?ftl = "[(''a.html'', [''x.html'', ''https://a.example/'', ''x.html'']),
      (''b.html'', [''x.html'', ''skip.html''])]"
  let ?runs = "[(''x.html'',
           [Local ''a.html'' ''x.html'', Local ''a.html'' ''x.html'', Local ''b.html'' ''x.html''],
           Inr (Some ''not found'')),
          (''https://a.example/'',
           [Request Https HEAD ''https://a.example/'', Request Https GET ''https://a.example/''],
           Inr None)]"
  have h: "\<forall>(key, vals) \<in> set ?ftl. set vals \<inter> set prototypeNames = {}"
    by (simp add: prototypeNames_def)
  have p: "0 < parallelism exampleEnv"
    by (simp add: exampleEnv_parallelism)
  have a: "probesAnswered exampleEnv ?ftl"
    by code_simp
  have e: "validations exampleEnv [''a.html'', ''b.html''] ?ftl = Inr ?runs"
    by code_simp
  have "(\<forall>(key, vals) \<in> set ?ftl. set vals \<inter> set prototypeNames = {})
        \<and> 0 < parallelism exampleEnv \<and> probesAnswered exampleEnv ?ftl \<longrightarrow>
       (\<exists>runs. validations exampleEnv [''a.html'', ''b.html''] ?ftl = Inr runs
          \<and> set (map fst runs) =
              {link \<in> \<Union> (set ` snd ` set ?ftl). \<not> ignored exampleEnv link})"
    by (rule validations_once [of exampleEnv "[''a.html'', ''b.html'']" ?ftl, THEN conjunct2])
  with h p a obtain runs where
    r: "validations exampleEnv [''a.html'', ''b.html''] ?ftl = Inr runs"
       "set (map fst runs) = {link \<in> \<Union> (set ` snd ` set ?ftl). \<not> ignored exampleEnv link}"
    by blast
  from r(1) e have "runs = ?runs" by simp
  with r(2) have s: "{link \<in> \<Union> (set ` snd ` set ?ftl). \<not> ignored exampleEnv link} =
       {''x.html'', ''https://a.example/''}" by simp
  show ?thesis
    by (intro conjI) (rule e, rule p, rule a, rule s)
qed

text \<open>
  C1 as stated fails.  The local resolver is invoked once per citation: one distinct
  reference, cited twice by one document and once by another, is resolved three times.
  And not every distinct reference is validated: the link \<^verbatim>\<open>HTTPS://a.example/\<close> is handed
  to the library for \<^verbatim>\<open>http\<close>, whose \<^verbatim>\<open>request\<close> throws, and \<^verbatim>\<open>x.html\<close> after it is never
  validated; a reference named \<^verbatim>\<open>toString\<close> ends the run before any validation.
\<close>

theorem validations_per_citation_counterexample:
  "validations exampleEnv [''a.html'', ''b.html'']
     [(''a.html'', [''x.html'', ''x.html'']), (''b.html'', [''x.html''])] =
   Inr [(''x.html'',
         [Local ''a.html'' ''x.html'', Local ''a.html'' ''x.html'', Local ''b.html'' ''x.html''],
         Inr (Some ''not found''))]
   \<and> validations exampleEnv [''a.html''] [(''a.html'', [''HTTPS://a.example/'', ''x.html''])] =
       Inr [(''HTTPS://a.example/'', [Request Http HEAD ''HTTPS://a.example/''], Inl TypeError)]
   \<and> validations exampleEnv [''a.html''] [(''a.html'', [''toString'', ''x.html''])] = Inl TypeError"
  by code_simp

subsection \<open>The report\<close>

lemma update_fresh: "k \<notin> fst ` set al \<Longrightarrow> AList.update k v al = al @ [(k, v)]"
  by (induction al) auto

lemma set_map_filter: "set (List.map_filter f xs) = {y. \<exists>x \<in> set xs. f x = Some y}"
  by (induction xs) (auto split: option.splits)

lemma reduce_linkErrors:
  assumes "distinct (map fst ftl)" "fst ` set acc \<inter> fst ` set ftl = {}"
  shows "foldl (\<lambda>obj (filename, links).
              let linkErrors = List.map_filter (linkError result) links
              in if length linkErrors \<noteq> 0 then AList.update filename linkErrors obj else obj)
           acc ftl =
         acc @ map (\<lambda>(filename, links). (filename, List.map_filter (linkError result) links))
                 (filter (\<lambda>(filename, links). List.map_filter (linkError result) links \<noteq> []) ftl)"
  using assms
proof (induction ftl arbitrary: acc)
  case Nil
  show ?case by simp
next
  case (Cons e ftl)
  obtain filename links where e: "e = (filename, links)" by (cases e)
  let ?errs = "List.map_filter (linkError result) links"
  let ?acc = "if ?errs \<noteq> [] then acc @ [(filename, ?errs)] else acc"
  have fresh: "filename \<notin> fst ` set acc"
    using Cons.prems(2) e by auto
  have d: "distinct (map fst ftl)"
    using Cons.prems(1) by simp
  have disj: "fst ` set ?acc \<inter> fst ` set ftl = {}"
    using Cons.prems e by auto
  show ?case
  proof (cases "?errs = []")
    case True
    with Cons.IH [OF d disj] show ?thesis by (simp add: e)
  next
    case False
    with Cons.IH [OF d disj] show ?thesis by (simp add: e update_fresh [OF fresh])
  qed
qed

lemma filenamesToLinkErrors_eq:
  assumes "distinct (map fst ftl)"
  shows "filenamesToLinkErrors ftl result =
     map (\<lambda>(filename, links). (filename, List.map_filter (linkError result) links))
       (filter (\<lambda>(filename, links). List.map_filter (linkError result) links \<noteq> []) ftl)"
  unfolding filenamesToLinkErrors_def using reduce_linkErrors [OF assms, of "[]" result] by simp

lemma linkErrors_keys:
  assumes "distinct (map fst ftl)"
  shows "map fst (filenamesToLinkErrors ftl result) =
     map fst (filter (\<lambda>(filename, links). List.map_filter (linkError result) links \<noteq> []) ftl)"
  by (simp add: filenamesToLinkErrors_eq [OF assms] case_prod_beta)

lemma linksOf_entry:
  assumes "distinct (map fst ftl)" "(filename, links) \<in> set ftl"
  shows "linksOf ftl filename = links"
  using map_of_is_SomeI [OF assms] by (simp add: linksOf_def)

lemma linkErrors_lookup:
  assumes "distinct (map fst ftl)" "(filename, links) \<in> set ftl"
    and "List.map_filter (linkError result) links \<noteq> []"
  shows "linksOf (filenamesToLinkErrors ftl result) filename =
     List.map_filter (linkError result) links"
proof -
  have d: "distinct (map fst (filenamesToLinkErrors ftl result))"
    using assms(1) by (simp add: linkErrors_keys distinct_map_filter)
  have "(filename, List.map_filter (linkError result) links) \<in> set (filenamesToLinkErrors ftl result)"
    using assms(2,3) by (force simp: filenamesToLinkErrors_eq [OF assms(1)])
  with d show ?thesis by (rule linksOf_entry)
qed

lemma collect_Inr:
  assumes "\<forall>x \<in> set runs. \<exists>v. snd (snd x) = Inr v"
  shows "collect runs =
     Inr (map (\<lambda>(link, calls, r). (link, case r of Inr v \<Rightarrow> v | Inl e \<Rightarrow> None)) runs)"
  using assms
proof (induction runs)
  case Nil
  show ?case by simp
next
  case (Cons x runs)
  obtain link calls r where x: "x = (link, calls, r)" by (cases x)
  from Cons.prems obtain v where r: "r = Inr v" by (auto simp: x)
  from Cons.prems have "\<forall>x \<in> set runs. \<exists>v. snd (snd x) = Inr v" by simp
  from Cons.IH [OF this] show ?case by (simp add: x r)
qed

text \<open>
  C10, as amended.  Take a run that ends without an exception and with every probe
  answered: no reference names a property of \<^verbatim>\<open>Object.prototype\<close>, \<^verbatim>\<open>parallelism\<close> is
  positive, no request throws or is left without a reply.  In such a run, a reference
  without a scheme that no ignore pattern matches and that fails to resolve from one of the
  documents that cite it is recorded as \<^verbatim>\<open>not found\<close>, and the line
  \<^verbatim>\<open><reference> (not found)\<close> is listed under every document that cites it, also under a
  document from which it resolves.
\<close>

theorem not_found_for_every_citing_document:
  assumes "\<forall>(key, vals) \<in> set ftl. set vals \<inter> set prototypeNames = {}"
    and "distinct (map fst ftl)"
    and "0 < parallelism E" and "probesAnswered E ftl"
    and "scheme E link = None" and "\<not> ignored E link"
    and "(filename0, links0) \<in> set ftl" and "link \<in> set links0"
    and "\<not> validLocal (normalizedFilenames fileKeys) filename0 link"
  shows "\<exists>runs result. validations E fileKeys ftl = Inr runs \<and> collect runs = Inr result
      \<and> plugin E fileKeys ftl = Inr (finish (filenamesToLinkErrors ftl result))
      \<and> map_of result link = Some (Some ''not found'')
      \<and> (\<forall>(filename, links) \<in> set ftl. link \<in> set links \<longrightarrow>
            link @ '' (not found)'' \<in> set (linksOf (filenamesToLinkErrors ftl result) filename))"
proof -
  let ?files = "normalizedFilenames fileKeys"
  let ?g = "\<lambda>(link, filenames). (link, iteratee E ?files filenames link)"
  let ?p = "\<lambda>(link, filenames). \<not> ignored E link"
  let ?h = "\<lambda>(link, calls, r). (link, case r of Inr v \<Rightarrow> v | Inl e \<Rightarrow> None)"
  from validations_complete [OF assms(1,3,4), of fileKeys] obtain ltf where
    rep: "represents ltf (citations ftl)" and
    v: "validations E fileKeys ftl = Inr (map ?g (filter ?p ltf))" and
    ok: "\<forall>(link, filenames) \<in> set (filter ?p ltf).
           \<exists>v. snd (iteratee E ?files filenames link) = Inr v" by blast
  let ?runs = "map ?g (filter ?p ltf)"
  let ?result = "map ?h ?runs"
  have "\<exists>v. snd (snd x) = Inr v" if "x \<in> set ?runs" for x
  proof -
    from that obtain y where y: "y \<in> set (filter ?p ltf)" and x: "x = ?g y"
      by (auto simp only: set_map)
    obtain l fs where l: "y = (l, fs)" by (cases y)
    from ok y l have "\<exists>v. snd (iteratee E ?files fs l) = Inr v" by blast
    then show ?thesis by (simp add: x l)
  qed
  then have "\<forall>x \<in> set ?runs. \<exists>v. snd (snd x) = Inr v" by blast
  then have c: "collect ?runs = Inr ?result"
    by (rule collect_Inr)
  have pl: "plugin E fileKeys ftl = Inr (finish (filenamesToLinkErrors ftl ?result))"
    by (simp only: plugin_def v c sum.case)
  have cited: "(filename0, link) \<in> set (citations ftl)"
    using assms(7,8) by (force simp: citations_def)
  then have "link \<in> set (map fst ltf)"
    using represents_keys [OF rep] by force
  then obtain filenames where e: "(link, filenames) \<in> set ltf"
    by auto
  have fs: "filenames = citing (citations ftl) link"
    by (rule represents_entry [OF rep e])
  have "filename0 \<in> set filenames"
    using cited unfolding fs citing_def by force
  with assms(9) have "\<not> list_all (\<lambda>filename. validLocal ?files filename link) filenames"
    by (auto simp: list_all_iff)
  then have it: "snd (iteratee E ?files filenames link) = Inr (Some ''not found'')"
    by (simp add: iteratee_local [OF assms(5)])
  have dr: "distinct (map fst ?result)"
    using rep by (simp add: represents_def distinct_map_filter case_prod_beta comp_def)
  have "(link, Some ''not found'') \<in> set ?result"
  proof -
    have "(link, filenames) \<in> set (filter ?p ltf)"
      using e assms(6) by simp
    then have "?h (?g (link, filenames)) \<in> set ?result"
      by (simp only: set_map image_eqI)
    then show ?thesis
      using it by (simp add: case_prod_beta)
  qed
  with dr have r: "map_of ?result link = Some (Some ''not found'')"
    by (rule map_of_is_SomeI)
  then have le: "linkError ?result link = Some (link @ '' (not found)'')"
    by (simp add: linkError_def)
  have "link @ '' (not found)'' \<in> set (linksOf (filenamesToLinkErrors ftl ?result) filename)"
    if "(filename, links) \<in> set ftl" "link \<in> set links" for filename links
  proof -
    have m: "link @ '' (not found)'' \<in> set (List.map_filter (linkError ?result) links)"
      using that(2) le by (auto simp: set_map_filter)
    then have "List.map_filter (linkError ?result) links \<noteq> []"
      by auto
    from linkErrors_lookup [OF assms(2) that(1) this] m show ?thesis by simp
  qed
  then have "\<forall>(filename, links) \<in> set ftl. link \<in> set links \<longrightarrow>
      link @ '' (not found)'' \<in> set (linksOf (filenamesToLinkErrors ftl ?result) filename)"
    by blast
  with v c pl r show ?thesis by blast
qed

theorem not_found_for_every_citing_document_witness:
  "validLocal (normalizedFilenames [''a.html'', ''sub/b.html'', ''sub/x.html'']) ''sub/b.html'' ''x.html''
   \<and> \<not> validLocal (normalizedFilenames [''a.html'', ''sub/b.html'', ''sub/x.html'']) ''a.html'' ''x.html''
   \<and> 0 < parallelism exampleEnv
   \<and> probesAnswered exampleEnv
        [(''a.html'', [''x.html'', ''http://b.example/gone'']), (''sub/b.html'', [''x.html''])]
   \<and> (\<exists>runs result.
         validations exampleEnv [''a.html'', ''sub/b.html'', ''sub/x.html'']
           [(''a.html'', [''x.html'', ''http://b.example/gone'']), (''sub/b.html'', [''x.html''])] = Inr runs
         \<and> collect runs = Inr result
         \<and> map_of result ''x.html'' = Some (Some ''not found'')
         \<and> ''x.html (not found)'' \<in> set (linksOf (filenamesToLinkErrors
              [(''a.html'', [''x.html'', ''http://b.example/gone'']), (''sub/b.html'', [''x.html''])] result)
              ''sub/b.html''))"
proof -
  let ?fk = "[''a.html'', ''sub/b.html'', ''sub/x.html'']"
  let ?ftl = "[(''a.html'', [''x.html'', ''http://b.example/gone'']), (''sub/b.html'', [''x.html''])]"
  have 1: "\<forall>(key, vals) \<in> set ?ftl. set vals \<inter> set prototypeNames = {}"
    by (simp add: prototypeNames_def)
  have 2: "distinct (map fst ?ftl)" by simp
  have 3: "0 < parallelism exampleEnv" by (simp add: exampleEnv_parallelism)
  have 4: "probesAnswered exampleEnv ?ftl" by code_simp
  have 5: "scheme exampleEnv ''x.html'' = None" by (simp add: exampleEnv_scheme)
  have 6: "\<not> ignored exampleEnv ''x.html''" by (simp add: exampleEnv_ignored)
  have 7: "(''a.html'', [''x.html'', ''http://b.example/gone'']) \<in> set ?ftl" by simp
  have 8: "''x.html'' \<in> set [''x.html'', ''http://b.example/gone'']" by simp
  have 9: "\<not> validLocal (normalizedFilenames ?fk) ''a.html'' ''x.html''" by code_simp
  have 10: "validLocal (normalizedFilenames ?fk) ''sub/b.html'' ''x.html''" by code_simp
  from not_found_for_every_citing_document [OF 1 2 3 4 5 6 7 8 9] obtain runs result where
    r: "validations exampleEnv ?fk ?ftl = Inr runs" "collect runs = Inr result"
       "map_of result ''x.html'' = Some (Some ''not found'')"
       "\<forall>(filename, links) \<in> set ?ftl. ''x.html'' \<in> set links \<longrightarrow>
            ''x.html'' @ '' (not found)'' \<in> set (linksOf (filenamesToLinkErrors ?ftl result) filename)"
    by blast
  from r(4) have "''x.html (not found)'' \<in> set (linksOf (filenamesToLinkErrors ?ftl result) ''sub/b.html'')"
    by simp
  with r(1,2,3) 3 4 9 10 show ?thesis by blast
qed

text \<open>
  C10 as stated fails.  A reference that an ignore pattern matches gets no outcome and no
  line, although it has no scheme, is cited by two documents and resolves from neither;
  and a reference named \<^verbatim>\<open>toString\<close> in one of the documents ends the run before anything is
  recorded or reported.
\<close>

theorem not_found_counterexample:
  "scheme exampleEnv ''skip.html'' = None
   \<and> \<not> validLocal (normalizedFilenames [''a.html'', ''b.html'']) ''a.html'' ''skip.html''
   \<and> plugin exampleEnv [''a.html'', ''b.html'']
        [(''a.html'', [''skip.html'']), (''b.html'', [''skip.html''])] = Inr [Done None]
   \<and> scheme exampleEnv ''x.html'' = None
   \<and> \<not> validLocal (normalizedFilenames [''a.html'', ''b.html'']) ''a.html'' ''x.html''
   \<and> plugin exampleEnv [''a.html'', ''b.html'']
        [(''a.html'', [''x.html'', ''toString'']), (''b.html'', [''x.html''])] = Inl TypeError"
  by code_simp

lemma map_filter_Nil_iff: "List.map_filter f xs = [] \<longleftrightarrow> (\<forall>x \<in> set xs. f x = None)"
  by (induction xs) (auto split: option.splits)

lemma linkError_SomeD:
  assumes "linkError result link = Some line"
  shows "\<exists>reason. reason \<noteq> [] \<and> map_of result link = Some (Some reason)
           \<and> line = link @ '' ('' @ reason @ '')''"
  using assms by (auto simp: linkError_def split: option.splits if_splits)

lemma linkError_permute:
  assumes "distinct (map fst result)" "mset result' = mset result"
  shows "linkError result' = linkError result"
proof -
  have "distinct (map fst result')"
    using assms mset_eq_imp_distinct_iff [of "map fst result'" "map fst result"] by simp
  moreover have "set result' = set result"
    using assms(2) by (rule mset_eq_setD)
  ultimately have "map_of result' = map_of result"
    using assms(1) by (simp add: map_of_inject_set)
  then show ?thesis by (simp add: linkError_def fun_eq_iff)
qed

lemma message_eq:
  "message errors =
     joinWith ''\<newline>\<newline>''
       (map (\<lambda>filename. filename @ '':\<newline>'' @
               joinWith ''\<newline>'' (map (\<lambda>line. ''  '' @ line) (sort (linksOf errors filename))))
          (sort (map fst errors)))"
  by (simp add: message_def linksOf_def)

text \<open>
  C5.  The message lists the documents that cite at least one reference with an error, each
  once and in lexicographic order; the block of a document is its path, a colon, and its
  lines \<^verbatim>\<open><reference> (<reason>)\<close>, indented and in lexicographic order; the blocks are
  separated by an empty line.  When there is at least one block, the first call of
  \<^verbatim>\<open>done\<close> passes the message under its heading; and the message does not depend on the
  order in which the outcomes were stored.
\<close>

theorem message_sorted:
  assumes "distinct (map fst ftl)"
  shows "\<exists>docs. sorted docs \<and> distinct docs
     \<and> set docs = {filename \<in> fst ` set ftl.
                     \<exists>link \<in> set (linksOf ftl filename). linkError result link \<noteq> None}
     \<and> message (filenamesToLinkErrors ftl result) =
         joinWith ''\<newline>\<newline>''
           (map (\<lambda>filename. filename @ '':\<newline>'' @
                   joinWith ''\<newline>''
                     (map (\<lambda>line. ''  '' @ line)
                        (sort (List.map_filter (linkError result) (linksOf ftl filename)))))
              docs)
     \<and> (docs \<noteq> [] \<longrightarrow>
          (\<exists>rest. finish (filenamesToLinkErrors ftl result) =
             Done (Some (''Broken links found:\<newline>\<newline>'' @ message (filenamesToLinkErrors ftl result))) # rest))
     \<and> (\<forall>link line. linkError result link = Some line \<longrightarrow>
          (\<exists>reason. reason \<noteq> [] \<and> map_of result link = Some (Some reason)
             \<and> line = link @ '' ('' @ reason @ '')''))
     \<and> (\<forall>result'. distinct (map fst result) \<and> mset result' = mset result \<longrightarrow>
          message (filenamesToLinkErrors ftl result') = message (filenamesToLinkErrors ftl result))"
proof -
  let ?errs = "filenamesToLinkErrors ftl result"
  let ?docs = "sort (map fst ?errs)"
  let ?P = "\<lambda>(filename, links). List.map_filter (linkError result) links \<noteq> []"
  have keys: "map fst ?errs = map fst (filter ?P ftl)"
    by (rule linkErrors_keys [OF assms])
  have 1: "sorted ?docs" by simp
  have 2: "distinct ?docs"
    using assms by (simp add: keys distinct_map_filter)
  have mem: "filename \<in> set ?docs \<longleftrightarrow>
      filename \<in> fst ` set ftl \<and>
      (\<exists>link \<in> set (linksOf ftl filename). linkError result link \<noteq> None)" for filename
  proof
    assume "filename \<in> set ?docs"
    then obtain links where e: "(filename, links) \<in> set ftl"
      and n: "List.map_filter (linkError result) links \<noteq> []"
      by (auto simp: keys)
    from n have "\<exists>link \<in> set links. linkError result link \<noteq> None"
      by (simp add: map_filter_Nil_iff)
    with e show "filename \<in> fst ` set ftl \<and>
      (\<exists>link \<in> set (linksOf ftl filename). linkError result link \<noteq> None)"
      by (force simp: linksOf_entry [OF assms e])
  next
    assume a: "filename \<in> fst ` set ftl \<and>
      (\<exists>link \<in> set (linksOf ftl filename). linkError result link \<noteq> None)"
    then obtain links where e: "(filename, links) \<in> set ftl" by auto
    with a have "\<exists>link \<in> set links. linkError result link \<noteq> None"
      by (simp add: linksOf_entry [OF assms e])
    then have "List.map_filter (linkError result) links \<noteq> []"
      by (simp add: map_filter_Nil_iff)
    with e show "filename \<in> set ?docs"
      by (force simp: keys)
  qed
  then have 3: "set ?docs = {filename \<in> fst ` set ftl.
      \<exists>link \<in> set (linksOf ftl filename). linkError result link \<noteq> None}"
    by blast
  have lines: "linksOf ?errs filename = List.map_filter (linkError result) (linksOf ftl filename)"
    if "filename \<in> set ?docs" for filename
  proof -
    from that obtain links where e: "(filename, links) \<in> set ftl"
      and n: "List.map_filter (linkError result) links \<noteq> []"
      by (auto simp: keys)
    from linkErrors_lookup [OF assms e n] show ?thesis
      by (simp add: linksOf_entry [OF assms e])
  qed
  have 4: "message ?errs =
      joinWith ''\<newline>\<newline>''
        (map (\<lambda>filename. filename @ '':\<newline>'' @
                joinWith ''\<newline>''
                  (map (\<lambda>line. ''  '' @ line)
                     (sort (List.map_filter (linkError result) (linksOf ftl filename)))))
           ?docs)"
  proof -
    have "map (\<lambda>filename. filename @ '':\<newline>'' @
                joinWith ''\<newline>'' (map (\<lambda>line. ''  '' @ line) (sort (linksOf ?errs filename))))
            ?docs =
          map (\<lambda>filename. filename @ '':\<newline>'' @
                joinWith ''\<newline>''
                  (map (\<lambda>line. ''  '' @ line)
                     (sort (List.map_filter (linkError result) (linksOf ftl filename)))))
            ?docs"
      by (rule map_cong [OF refl]) (simp add: lines)
    then show ?thesis by (simp only: message_eq)
  qed
  have 5: "?docs \<noteq> [] \<longrightarrow>
      (\<exists>rest. finish ?errs = Done (Some (''Broken links found:\<newline>\<newline>'' @ message ?errs)) # rest)"
    by (auto simp: finish_def)
  have 6: "\<forall>link line. linkError result link = Some line \<longrightarrow>
      (\<exists>reason. reason \<noteq> [] \<and> map_of result link = Some (Some reason)
         \<and> line = link @ '' ('' @ reason @ '')'')"
    using linkError_SomeD by blast
  have 7: "\<forall>result'. distinct (map fst result) \<and> mset result' = mset result \<longrightarrow>
      message (filenamesToLinkErrors ftl result') = message ?errs"
  proof (intro allI impI)
    fix result'
    assume "distinct (map fst result) \<and> mset result' = mset result"
    then have "linkError result' = linkError result"
      by (simp add: linkError_permute)
    then show "message (filenamesToLinkErrors ftl result') = message ?errs"
      by (simp add: filenamesToLinkErrors_def)
  qed
  from 1 2 3 4 5 6 7 show ?thesis by blast
qed

theorem message_sorted_witness:
  "distinct (map fst [(''b.html'', [''y.html'', ''x.html'']), (''a.html'', [''z.html'']), (''c.html'', [''ok.html''])])
   \<and> message (filenamesToLinkErrors
        [(''b.html'', [''y.html'', ''x.html'']), (''a.html'', [''z.html'']), (''c.html'', [''ok.html''])]
        [(''x.html'', Some ''not found''), (''y.html'', Some ''HTTP 404''),
         (''z.html'', Some ''not found''), (''ok.html'', None)]) =
      ''a.html:\<newline>  z.html (not found)\<newline>\<newline>b.html:\<newline>  x.html (not found)\<newline>  y.html (HTTP 404)''
   \<and> message (filenamesToLinkErrors
        [(''b.html'', [''y.html'', ''x.html'']), (''a.html'', [''z.html'']), (''c.html'', [''ok.html''])]
        (rev [(''x.html'', Some ''not found''), (''y.html'', Some ''HTTP 404''),
         (''z.html'', Some ''not found''), (''ok.html'', None)])) =
      ''a.html:\<newline>  z.html (not found)\<newline>\<newline>b.html:\<newline>  x.html (not found)\<newline>  y.html (HTTP 404)''"
proof -
  let ?ftl = "[(''b.html'', [''y.html'', ''x.html'']), (''a.html'', [''z.html'']), (''c.html'', [''ok.html''])]"
  let ?result = "[(''x.html'', Some ''not found''), (''y.html'', Some ''HTTP 404''),
         (''z.html'', Some ''not found''), (''ok.html'', None)]"
  let ?block = "\<lambda>filename. filename @ '':\<newline>'' @
                   joinWith ''\<newline>''
                     (map (\<lambda>line. ''  '' @ line)
                        (sort (List.map_filter (linkError ?result) (linksOf ?ftl filename))))"
  have d: "distinct (map fst ?ftl)" by simp
  from message_sorted [OF d, of ?result] obtain docs where
    o: "sorted docs" "distinct docs"
       "set docs = {filename \<in> fst ` set ?ftl.
                     \<exists>link \<in> set (linksOf ?ftl filename). linkError ?result link \<noteq> None}"
       "message (filenamesToLinkErrors ?ftl ?result) = joinWith ''\<newline>\<newline>'' (map ?block docs)"
       "\<forall>result'. distinct (map fst ?result) \<and> mset result' = mset ?result \<longrightarrow>
          message (filenamesToLinkErrors ?ftl result') = message (filenamesToLinkErrors ?ftl ?result)"
    by blast
  have "{filename \<in> fst ` set ?ftl.
           \<exists>link \<in> set (linksOf ?ftl filename). linkError ?result link \<noteq> None} = {''a.html'', ''b.html''}"
    by (auto simp: linksOf_def linkError_def)
  with o(3) have "set docs = set [''a.html'', ''b.html'']" by simp
  moreover have "sorted [''a.html'', ''b.html'']" "distinct [''a.html'', ''b.html'']" by simp_all
  ultimately have docs: "docs = [''a.html'', ''b.html'']"
    using o(1,2) by (simp add: sorted_distinct_set_unique)
  have b: "joinWith ''\<newline>\<newline>'' (map ?block [''a.html'', ''b.html'']) =
     ''a.html:\<newline>  z.html (not found)\<newline>\<newline>b.html:\<newline>  x.html (not found)\<newline>  y.html (HTTP 404)''"
    by code_simp
  have m: "message (filenamesToLinkErrors ?ftl ?result) =
     ''a.html:\<newline>  z.html (not found)\<newline>\<newline>b.html:\<newline>  x.html (not found)\<newline>  y.html (HTTP 404)''"
    using o(4) b by (simp only: docs)
  have "distinct (map fst ?result) \<and> mset (rev ?result) = mset ?result" by simp
  with o(5) have "message (filenamesToLinkErrors ?ftl (rev ?result)) =
      message (filenamesToLinkErrors ?ftl ?result)" by blast
  with d m show ?thesis by simp
qed

subsection \<open>Completion\<close>

lemma finish_cases:
  "finish errors =
     (if errors = [] then [Done None]
      else [Done (Some (''Broken links found:\<newline>\<newline>'' @ message errors)), Done None])"
  by (simp add: finish_def)

text \<open>
  C8.  With one document that cites one missing file, \<^verbatim>\<open>done\<close> is called with the message
  and then once more without an argument: the branch that reports the broken links does
  not return.
\<close>

theorem plugin_calls_done_twice:
  "plugin exampleEnv [''a.html''] [(''a.html'', [''missing.html''])] =
     Inr [Done (Some ''Broken links found:\<newline>\<newline>a.html:\<newline>  missing.html (not found)''),
          Done None]"
  by code_simp

end
